theory Spec2Isabelle
  imports Main "HOL-Library.Multiset" "HOL-Library.Sublist"
    "HOL-Library.Char_ord" "HOL-Library.List_Lexorder"
begin

section \<open>Data model\<close>

text \<open>
  The dashboard component keeps its data in React state and mirrors it in two IndexedDB
  object stores. A \<open>Date\<close> that an operation sets, reads or compares is modelled by the
  number \<open>getTime()\<close> returns (milliseconds since the epoch), a valid date. Strings are
  \<open>char list\<close>: a
  character of the model is a UTF-16 code unit below 256, that is, a character of Latin-1.
  The emoji of the source's literals are left out of the literals below.

  \<open>NewNote\<close> is \<open>Omit<Note, 'id' | 'createdAt' | 'updatedAt' | 'isPinned' | 'isArchived'>\<close>:
  the record \<open>Note\<close> extends it with exactly the omitted fields. The fields \<open>id\<close> and
  \<open>image\<close> carry a suffix because HOL has constants of these names; the optional
  \<open>image?\<close> is an \<open>option\<close>. The record is polymorphic in the representation of its two
  dates: a \<open>Note\<close> holds valid dates, a note inside a JSON file holds what
  \<open>JSON.stringify\<close> writes for them. The stores, the component's state, the export and
  the import carry the dates of a note along without reading them, and are polymorphic in
  the same way; the types without parameter are those with valid dates.
\<close>

type_synonym Date = int

record NewNote =
  title :: string
  content :: string
  category :: string
  color :: string
  image_n :: "string option"
  tags :: "string list"

record 'd Note_of = NewNote +
  id_n :: string
  createdAt :: 'd
  updatedAt :: 'd
  isPinned :: bool
  isArchived :: bool

type_synonym Note = "Date Note_of"

record Category =
  name :: string
  cat_color :: string

datatype SortBy = SortUpdatedAt | SortCreatedAt | SortTitle

datatype toast = ToastSuccess string | ToastError string | ToastInfo string


section \<open>The storage layer\<close>

text \<open>
  \<open>openDB\<close> creates two object stores with in-line keys: \<open>notes\<close> with key path \<open>id\<close> and
  \<open>categories\<close> with key path \<open>name\<close>. An object store holds its records in ascending key
  order, one record per key; \<open>put\<close> inserts a record or replaces the record of the same key,
  \<open>delete\<close> removes the record of a key, \<open>getAll\<close> lists the records in key order. A store
  is modelled by the list \<open>getAll\<close> returns, the key of a record being read off the record
  by the key path.
\<close>

fun os_put :: "('r \<Rightarrow> string) \<Rightarrow> 'r \<Rightarrow> 'r list \<Rightarrow> 'r list" where
  "os_put key r [] = [r]"
| "os_put key r (x # xs) =
     (if key r = key x then r # xs
      else if key r < key x then r # x # xs
      else x # os_put key r xs)"

fun os_delete :: "('r \<Rightarrow> string) \<Rightarrow> string \<Rightarrow> 'r list \<Rightarrow> 'r list" where
  "os_delete key k [] = []"
| "os_delete key k (x # xs) =
     (if key x = k then xs else x # os_delete key k xs)"

definition os_getAll :: "'r list \<Rightarrow> 'r list" where
  "os_getAll xs = xs"

definition valid_store :: "('r \<Rightarrow> string) \<Rightarrow> 'r list \<Rightarrow> bool" where
  "valid_store key xs = sorted_wrt (<) (map key xs)"

record 'd database_of =
  notes_store :: "'d Note_of list"
  categories_store :: "Category list"

type_synonym database = "Date database_of"

definition valid_db :: "'d database_of \<Rightarrow> bool" where
  "valid_db d = (valid_store id_n (notes_store d) \<and> valid_store name (categories_store d))"

text \<open>
  The wrappers take the store name as a string and a \<open>Note | Category\<close>. A transaction on a
  store that does not exist throws \<open>NotFoundError\<close>, and \<open>put\<close> of a value without the
  store's key property throws \<open>DataError\<close>; either rejects the wrapper's promise.
\<close>

datatype 'd entity_of = NoteData "'d Note_of" | CategoryData Category

type_synonym entity = "Date entity_of"

datatype error = NotFoundError | DataError

definition saveToIndexedDB ::
  "string \<Rightarrow> 'd entity_of \<Rightarrow> 'd database_of \<Rightarrow> error + 'd database_of" where
  "saveToIndexedDB storeName data d =
     (if storeName = ''notes'' then
        (case data of
           NoteData n \<Rightarrow> Inr (d\<lparr>notes_store := os_put id_n n (notes_store d)\<rparr>)
         | CategoryData c \<Rightarrow> Inl DataError)
      else if storeName = ''categories'' then
        (case data of
           CategoryData c \<Rightarrow> Inr (d\<lparr>categories_store := os_put name c (categories_store d)\<rparr>)
         | NoteData n \<Rightarrow> Inl DataError)
      else Inl NotFoundError)"

definition getAllFromIndexedDB ::
  "string \<Rightarrow> 'd database_of \<Rightarrow> error + 'd entity_of list" where
  "getAllFromIndexedDB storeName d =
     (if storeName = ''notes'' then Inr (map NoteData (os_getAll (notes_store d)))
      else if storeName = ''categories'' then
        Inr (map CategoryData (os_getAll (categories_store d)))
      else Inl NotFoundError)"

definition deleteFromIndexedDB ::
  "string \<Rightarrow> string \<Rightarrow> 'd database_of \<Rightarrow> error + 'd database_of" where
  "deleteFromIndexedDB storeName key d =
     (if storeName = ''notes'' then
        Inr (d\<lparr>notes_store := os_delete id_n key (notes_store d)\<rparr>)
      else if storeName = ''categories'' then
        Inr (d\<lparr>categories_store := os_delete name key (categories_store d)\<rparr>)
      else Inl NotFoundError)"

text \<open>The key a record has in a store, by the store's key path.\<close>

definition entity_key :: "string \<Rightarrow> 'd entity_of \<Rightarrow> string option" where
  "entity_key storeName data =
     (case data of
        NoteData n \<Rightarrow> (if storeName = ''notes'' then Some (id_n n) else None)
      | CategoryData c \<Rightarrow> (if storeName = ''categories'' then Some (name c) else None))"


definition stored :: "string \<Rightarrow> 'd database_of \<Rightarrow> 'd entity_of list" where
  "stored storeName d =
     (case getAllFromIndexedDB storeName d of Inr rs \<Rightarrow> rs | Inl e \<Rightarrow> [])"


section \<open>Library functions the component calls\<close>

text \<open>
  \<open>String.prototype.toLowerCase\<close> on the characters of this model. The upper-case letters
  of Latin-1 are \<open>A\<close> to \<open>Z\<close> (codes 65 to 90) and the accented capitals from \<open>0xC0\<close> to
  \<open>0xDE\<close> (codes 192 to 222) without the multiplication sign \<open>0xD7\<close> (215); the lower-case
  form of each has the code 32 higher. Every other character stays as it is.
\<close>

definition lower_char :: "char \<Rightarrow> char" where
  "lower_char c =
     (let n = of_char c :: nat in
      if (65 \<le> n \<and> n \<le> 90) \<or> (192 \<le> n \<and> n \<le> 222 \<and> n \<noteq> 215)
      then char_of (n + 32) else c)"

definition toLowerCase :: "string \<Rightarrow> string" where
  "toLowerCase s = map lower_char s"

text \<open>\<open>s.includes(t)\<close>: \<open>t\<close> occurs in \<open>s\<close> at some position.\<close>

text \<open>The name carries a suffix: \<open>includes\<close> is a keyword of Isabelle.\<close>

fun includes_s :: "string \<Rightarrow> string \<Rightarrow> bool" where
  "includes_s [] t = (t = [])"
| "includes_s (c # s) t = (prefix t (c # s) \<or> includes_s s t)"

text \<open>
  \<open>String.prototype.trim\<close> removes white space and line terminators from both ends; of
  those, the characters of this model are tab, line feed, vertical tab, form feed,
  carriage return, space and the no-break space \<open>0xA0\<close>.
\<close>

definition is_whitespace :: "char \<Rightarrow> bool" where
  "is_whitespace c =
     (c = CHR 0x09 \<or> c = CHR 0x0A \<or> c = CHR 0x0B \<or> c = CHR 0x0C \<or> c = CHR 0x0D
      \<or> c = CHR '' '' \<or> c = CHR 0xA0)"

definition trim :: "string \<Rightarrow> string" where
  "trim s = rev (dropWhile is_whitespace (rev (dropWhile is_whitespace s)))"

text \<open>\<open>Number.prototype.toString\<close> on an integer: its decimal digits.\<close>

definition digit_char :: "nat \<Rightarrow> char" where
  "digit_char n = char_of (48 + n)"

fun show_nat :: "nat \<Rightarrow> string" where
  "show_nat n =
     (if n < 10 then [digit_char n] else show_nat (n div 10) @ [digit_char (n mod 10)])"

declare show_nat.simps [simp del]

definition toString :: "int \<Rightarrow> string" where
  "toString i = (if i < 0 then CHR ''-'' # show_nat (nat (- i)) else show_nat (nat i))"

text \<open>
  \<open>Array.prototype.sort\<close> with a comparator is a stable sort: an element goes before
  another when the comparator says so, and elements the comparator does not separate keep
  their order. The comparator returns a number, of which only the sign is used.
\<close>

fun sort_insert :: "('a \<Rightarrow> 'a \<Rightarrow> int) \<Rightarrow> 'a \<Rightarrow> 'a list \<Rightarrow> 'a list" where
  "sort_insert cmp x [] = [x]"
| "sort_insert cmp x (y # ys) =
     (if cmp x y \<le> 0 then x # y # ys else y # sort_insert cmp x ys)"

definition array_sort :: "('a \<Rightarrow> 'a \<Rightarrow> int) \<Rightarrow> 'a list \<Rightarrow> 'a list" where
  "array_sort cmp xs = foldr (sort_insert cmp) xs []"

text \<open>
  A \<open>Set\<close> keeps its elements in insertion order, and \<open>add\<close> of an element it has does
  nothing; \<open>Array.from\<close> lists the elements in that order.
\<close>

definition set_add :: "'a \<Rightarrow> 'a list \<Rightarrow> 'a list" where
  "set_add x s = (if x \<in> set s then s else s @ [x])"


section \<open>Derived views\<close>

text \<open>
  The effect that recomputes \<open>allTags\<close> whenever \<open>notes\<close> changes.
\<close>

definition allTags :: "Note list \<Rightarrow> string list" where
  "allTags notes = fold (\<lambda>note tgs. fold set_add (tags note) tgs) notes []"

text \<open>
  \<open>filteredNotes\<close>: the filter predicate, the comparator, and the memoised view. The
  comparison of two titles is \<open>String.prototype.localeCompare\<close>, whose result depends on
  the locale of the browser; it is a parameter of the model.
\<close>

definition getTime :: "SortBy \<Rightarrow> Note \<Rightarrow> int" where
  "getTime sortBy note = (if sortBy = SortCreatedAt then createdAt note else updatedAt note)"

definition noteFilter :: "string \<Rightarrow> string \<Rightarrow> bool \<Rightarrow> Note \<Rightarrow> bool" where
  "noteFilter selectedCategory searchTerm showArchived note =
     ((selectedCategory = ''All'' \<or> category note = selectedCategory) \<and>
      (includes_s (toLowerCase (title note)) (toLowerCase searchTerm) \<or>
       includes_s (toLowerCase (content note)) (toLowerCase searchTerm) \<or>
       list_ex (\<lambda>tag. includes_s (toLowerCase tag) (toLowerCase searchTerm)) (tags note)) \<and>
      (if showArchived then isArchived note else \<not> isArchived note))"

definition noteCompare :: "(string \<Rightarrow> string \<Rightarrow> int) \<Rightarrow> SortBy \<Rightarrow> Note \<Rightarrow> Note \<Rightarrow> int" where
  "noteCompare localeCompare sortBy a b =
     (if isPinned a \<and> \<not> isPinned b then - 1
      else if \<not> isPinned a \<and> isPinned b then 1
      else if sortBy = SortTitle then localeCompare (title a) (title b)
      else getTime sortBy b - getTime sortBy a)"

definition filteredNotes ::
  "(string \<Rightarrow> string \<Rightarrow> int) \<Rightarrow> Note list \<Rightarrow> string \<Rightarrow> string \<Rightarrow> bool \<Rightarrow> SortBy \<Rightarrow> Note list" where
  "filteredNotes localeCompare notes selectedCategory searchTerm showArchived sortBy =
     array_sort (noteCompare localeCompare sortBy)
       (filter (noteFilter selectedCategory searchTerm showArchived) notes)"


section \<open>The component's state and its operations\<close>

text \<open>
  The state of \<open>NotelyticsNoteDashboard\<close> that the operations read and write, the database
  behind it, and the toasts shown so far. An operation is an \<open>async\<close> function: it
  returns the next state, or the error its promise is rejected with when an awaited storage
  call fails, in which case the state updates after the \<open>await\<close> do not happen. The clock
  readings \<open>new Date()\<close> and \<open>Date.now()\<close> are arguments.
\<close>

record 'd app_state_of =
  "notes" :: "'d Note_of list"
  newNote :: NewNote
  editingNote :: "'d Note_of option"
  isAddingNote :: bool
  categories :: "Category list"
  db :: "'d database_of"
  toasts :: "toast list"

type_synonym app_state = "Date app_state_of"

definition emptyNewNote :: NewNote where
  "emptyNewNote =
     \<lparr>title = [], content = [], category = [], color = [], image_n = Some [],
      tags = []\<rparr>"

definition replaceNote :: "string \<Rightarrow> Note \<Rightarrow> Note list \<Rightarrow> Note list" where
  \<comment> \<open>\<open>prevNotes.map(note => note.id === id ? updatedNote : note)\<close>\<close>
  "replaceNote k updatedNote prevNotes =
     map (\<lambda>note. if id_n note = k then updatedNote else note) prevNotes"

definition pinnedCount :: "Note list \<Rightarrow> nat" where
  \<comment> \<open>\<open>notes.filter(note => note.isPinned).length\<close>\<close>
  "pinnedCount ns = length (filter isPinned ns)"

definition categoryColor :: "Category list \<Rightarrow> string \<Rightarrow> string" where
  \<comment> \<open>\<open>categories.find(cat => cat.name === name)?.color || '#CCCCCC'\<close>: the default also
     replaces an empty colour, which is falsy\<close>
  "categoryColor cs c =
     (case find (\<lambda>cat. name cat = c) cs of
        None \<Rightarrow> ''#CCCCCC''
      | Some cat \<Rightarrow> if cat_color cat = [] then ''#CCCCCC'' else cat_color cat)"

definition addNote :: "Date \<Rightarrow> int \<Rightarrow> app_state \<Rightarrow> error + app_state" where
  "addNote now dateNow st =
     (let nn = newNote st in
      if title nn \<noteq> [] \<and> content nn \<noteq> [] \<and> category nn \<noteq> [] then
        let color' = categoryColor (categories st) (category nn);
            newNoteWithId =
              \<lparr>title = title nn, content = content nn, category = category nn,
               color = color', image_n = image_n nn, tags = tags nn,
               id_n = toString dateNow, createdAt = now, updatedAt = now,
               isPinned = False, isArchived = False\<rparr>
        in case saveToIndexedDB ''notes'' (NoteData newNoteWithId) (db st) of
             Inl e \<Rightarrow> Inl e
           | Inr d \<Rightarrow>
               Inr (st\<lparr>db := d,
                       notes := notes st @ [newNoteWithId],
                       newNote := emptyNewNote,
                       isAddingNote := False,
                       toasts := toasts st @ [ToastSuccess ''Note added successfully!'']\<rparr>)
      else Inr (st\<lparr>toasts := toasts st @ [ToastError ''Please fill in all required fields'']\<rparr>))"

definition updateNote :: "Date \<Rightarrow> app_state \<Rightarrow> error + app_state" where
  "updateNote now st =
     (case editingNote st of
        None \<Rightarrow> Inr st
      | Some e \<Rightarrow>
          let updatedNote = e\<lparr>updatedAt := now\<rparr> in
          case saveToIndexedDB ''notes'' (NoteData updatedNote) (db st) of
            Inl err \<Rightarrow> Inl err
          | Inr d \<Rightarrow>
              Inr (st\<lparr>db := d,
                      notes := replaceNote (id_n e) updatedNote (notes st),
                      editingNote := None,
                      toasts := toasts st @ [ToastSuccess ''Note updated successfully!'']\<rparr>))"

definition deleteNote :: "string \<Rightarrow> app_state \<Rightarrow> error + app_state" where
  "deleteNote k st =
     (case deleteFromIndexedDB ''notes'' k (db st) of
        Inl err \<Rightarrow> Inl err
      | Inr d \<Rightarrow>
          Inr (st\<lparr>db := d,
                  notes := filter (\<lambda>note. id_n note \<noteq> k) (notes st),
                  toasts := toasts st @ [ToastInfo ''Note deleted'']\<rparr>))"

definition togglePinNote :: "string \<Rightarrow> app_state \<Rightarrow> error + app_state" where
  "togglePinNote k st =
     (case find (\<lambda>note. id_n note = k) (notes st) of
        None \<Rightarrow> Inr st
      | Some noteToToggle \<Rightarrow>
          let pinnedNotes = pinnedCount (notes st) in
          if \<not> isPinned noteToToggle \<and> pinnedNotes \<ge> 3 then
            Inr (st\<lparr>toasts := toasts st @ [ToastError ''You can only pin up to 3 notes'']\<rparr>)
          else
            let updatedNote = noteToToggle\<lparr>isPinned := \<not> isPinned noteToToggle\<rparr> in
            case saveToIndexedDB ''notes'' (NoteData updatedNote) (db st) of
              Inl err \<Rightarrow> Inl err
            | Inr d \<Rightarrow>
                Inr (st\<lparr>db := d,
                        notes := replaceNote k updatedNote (notes st),
                        toasts := toasts st @
                          [if isPinned updatedNote then ToastSuccess ''Note pinned''
                           else ToastInfo ''Note unpinned'']\<rparr>))"

definition toggleArchiveNote :: "string \<Rightarrow> app_state \<Rightarrow> error + app_state" where
  "toggleArchiveNote k st =
     (case find (\<lambda>note. id_n note = k) (notes st) of
        None \<Rightarrow> Inr st
      | Some noteToToggle \<Rightarrow>
          let updatedNote = noteToToggle\<lparr>isArchived := \<not> isArchived noteToToggle\<rparr> in
          case saveToIndexedDB ''notes'' (NoteData updatedNote) (db st) of
            Inl err \<Rightarrow> Inl err
          | Inr d \<Rightarrow>
              Inr (st\<lparr>db := d,
                      notes := replaceNote k updatedNote (notes st),
                      toasts := toasts st @
                        [if isArchived updatedNote then ToastSuccess ''Note archived''
                         else ToastInfo ''Note unarchived'']\<rparr>))"

definition deleteCategory :: "string \<Rightarrow> app_state \<Rightarrow> error + app_state" where
  "deleteCategory categoryName st =
     (case deleteFromIndexedDB ''categories'' categoryName (db st) of
        Inl err \<Rightarrow> Inl err
      | Inr d \<Rightarrow>
          Inr (st\<lparr>db := d,
                  categories := filter (\<lambda>cat. name cat \<noteq> categoryName) (categories st),
                  notes := map (\<lambda>note. if category note = categoryName
                                         then note\<lparr>category := ''Uncategorized''\<rparr> else note)
                             (notes st),
                  toasts := toasts st @ [ToastSuccess ''Category deleted successfully!'']\<rparr>))"

text \<open>
  \<open>handleTagChange(tags, noteId?)\<close>: the optional \<open>noteId\<close> is tested for truthiness, so
  the empty string counts as absent.
\<close>

definition normalizeTags :: "string list \<Rightarrow> string list" where
  \<comment> \<open>\<open>tags.filter(tag => tag.trim() !== '').map(tag => tag.trim())\<close>\<close>
  "normalizeTags tgs = map trim (filter (\<lambda>tag. trim tag \<noteq> []) tgs)"

definition handleTagChange :: "string list \<Rightarrow> string option \<Rightarrow> app_state \<Rightarrow> error + app_state" where
  "handleTagChange tgs noteId st =
     (let updatedTags = normalizeTags tgs in
      case noteId of
        None \<Rightarrow> Inr (st\<lparr>newNote := (newNote st)\<lparr>tags := updatedTags\<rparr>\<rparr>)
      | Some k \<Rightarrow>
          if k = [] then Inr (st\<lparr>newNote := (newNote st)\<lparr>tags := updatedTags\<rparr>\<rparr>)
          else
            (case find (\<lambda>note. id_n note = k) (notes st) of
               None \<Rightarrow> Inr st
             | Some noteToUpdate \<Rightarrow>
                 let updatedNote = noteToUpdate\<lparr>tags := updatedTags\<rparr> in
                 case saveToIndexedDB ''notes'' (NoteData updatedNote) (db st) of
                   Inl err \<Rightarrow> Inl err
                 | Inr d \<Rightarrow>
                     Inr (st\<lparr>db := d,
                             notes := replaceNote k updatedNote (notes st),
                             toasts := toasts st @
                               [ToastSuccess ''Tags updated successfully!'']\<rparr>)))"


section \<open>Export and import\<close>

text \<open>
  The backup file is the JSON text of \<open>{notes, categories}\<close>. The model holds the file as
  the value \<open>JSON.parse\<close> gives for it: an object whose two properties may be missing, the
  notes carrying their dates as the file has them. \<open>JSON.stringify\<close> writes a \<open>Date\<close> by
  its \<open>toJSON\<close> and leaves an absent \<open>image\<close> absent; \<open>new Date(v)\<close> reads a date back.
  Both conversions are parameters of the export and the import.
\<close>

record 'j ImportedData =
  notes_f :: "'j Note_of list option"
  categories_f :: "Category list option"

datatype 'j file_input = NoFile | Unparsable | Parsed "'j ImportedData"

definition withDates :: "('a \<Rightarrow> 'b) \<Rightarrow> 'a Note_of \<Rightarrow> 'b Note_of" where
  \<comment> \<open>\<open>{...note, createdAt: f(note.createdAt), updatedAt: f(note.updatedAt)}\<close>\<close>
  "withDates f note =
     \<lparr>title = title note, content = content note, category = category note,
      color = color note, image_n = image_n note, tags = tags note,
      id_n = id_n note, createdAt = f (createdAt note), updatedAt = f (updatedAt note),
      isPinned = isPinned note, isArchived = isArchived note\<rparr>"

definition asNotes :: "'d entity_of list \<Rightarrow> 'd Note_of list" where
  \<comment> \<open>the cast \<open>as Note[]\<close> of what the notes store returned\<close>
  "asNotes rs = concat (map (\<lambda>r. case r of NoteData n \<Rightarrow> [n] | CategoryData c \<Rightarrow> []) rs)"

definition asCategories :: "'d entity_of list \<Rightarrow> Category list" where
  \<comment> \<open>the cast \<open>as Category[]\<close> of what the categories store returned\<close>
  "asCategories rs = concat (map (\<lambda>r. case r of CategoryData c \<Rightarrow> [c] | NoteData n \<Rightarrow> []) rs)"

definition exportNotes ::
  "('d \<Rightarrow> 'j) \<Rightarrow> 'd app_state_of \<Rightarrow> error + ('j ImportedData \<times> 'd app_state_of)" where
  "exportNotes toJSON st =
     (case getAllFromIndexedDB ''notes'' (db st) of
        Inl err \<Rightarrow> Inl err
      | Inr notesToExport \<Rightarrow>
          (case getAllFromIndexedDB ''categories'' (db st) of
             Inl err \<Rightarrow> Inl err
           | Inr categoriesToExport \<Rightarrow>
               Inr (\<lparr>notes_f = Some (map (withDates toJSON) (asNotes notesToExport)),
                     categories_f = Some (asCategories categoriesToExport)\<rparr>,
                    st\<lparr>toasts := toasts st @
                         [ToastSuccess ''Notes and categories exported successfully!'']\<rparr>)))"

text \<open>
  The two loops of \<open>importNotes\<close> save one record after the other; the first save that
  fails ends the import in the \<open>catch\<close> block, with the records saved so far in the store.
\<close>

fun saveAll ::
  "string \<Rightarrow> 'd entity_of list \<Rightarrow> 'd database_of \<Rightarrow> error option \<times> 'd database_of" where
  "saveAll storeName [] d = (None, d)"
| "saveAll storeName (r # rs) d =
     (case saveToIndexedDB storeName r d of
        Inl err \<Rightarrow> (Some err, d)
      | Inr d' \<Rightarrow> saveAll storeName rs d')"

definition importFailed :: "'d database_of \<Rightarrow> 'd app_state_of \<Rightarrow> 'd app_state_of" where
  "importFailed d st =
     st\<lparr>db := d,
        toasts := toasts st @
          [ToastError ''Failed to import data. Please check the file format.'']\<rparr>"

definition importNotes ::
  "('j \<Rightarrow> 'd) \<Rightarrow> 'j file_input \<Rightarrow> 'd app_state_of \<Rightarrow> 'd app_state_of" where
  "importNotes newDate file st =
     (case file of
        NoFile \<Rightarrow> st
      | Unparsable \<Rightarrow> importFailed (db st) st
      | Parsed importedData \<Rightarrow>
          (case (notes_f importedData, categories_f importedData) of
             (Some ns, Some cs) \<Rightarrow>
               (case saveAll ''notes'' (map (\<lambda>note. NoteData (withDates newDate note)) ns)
                       (db st) of
                  (Some err, d1) \<Rightarrow> importFailed d1 st
                | (None, d1) \<Rightarrow>
                    (case saveAll ''categories'' (map CategoryData cs) d1 of
                       (Some err, d2) \<Rightarrow> importFailed d2 st
                     | (None, d2) \<Rightarrow>
                         (case (getAllFromIndexedDB ''notes'' d2,
                                getAllFromIndexedDB ''categories'' d2) of
                            (Inr updatedNotes, Inr updatedCategories) \<Rightarrow>
                              st\<lparr>db := d2,
                                 notes := map (withDates (\<lambda>date. date)) (asNotes updatedNotes),
                                 categories := asCategories updatedCategories,
                                 toasts := toasts st @
                                   [ToastSuccess
                                      ''Notes and categories imported successfully!'']\<rparr>
                          | _ \<Rightarrow> importFailed d2 st)))
           | _ \<Rightarrow> importFailed (db st) st))"


text \<open>
  The dates the operations above set, read and compare are valid dates. The stores, the
  export and the import only carry the dates of a note along, so they are modelled for any
  representation of a date. A \<open>Date\<close> object as a store can hold it is a time value or an
  Invalid Date, \<open>None\<close> below. \<open>JSON.stringify\<close> writes a date by \<open>Date.prototype.toJSON\<close>:
  the \<open>toISOString\<close> string of a valid date and \<open>null\<close> for an Invalid Date; \<open>new Date(v)\<close>
  reads a string by parsing it, which gives an Invalid Date for a string that is no date,
  and reads \<open>null\<close> as the time value 0. The two conversions between a time value and its
  string belong to the browser and are parameters.
\<close>

datatype json_date = JsonString string | JsonNull

definition dateToJSON :: "(int \<Rightarrow> string) \<Rightarrow> int option \<Rightarrow> json_date" where
  "dateToJSON toISOString date =
     (case date of None \<Rightarrow> JsonNull | Some t \<Rightarrow> JsonString (toISOString t))"

definition dateFromJSON :: "(string \<Rightarrow> int option) \<Rightarrow> json_date \<Rightarrow> int option" where
  "dateFromJSON parse v = (case v of JsonNull \<Rightarrow> Some 0 | JsonString s \<Rightarrow> parse s)"


section \<open>The data of a first start\<close>

text \<open>
  The categories the component starts with, and the notes \<open>initializeData\<close> creates when
  the notes store is empty; \<open>now\<close> is the reading of \<open>new Date()\<close>.
\<close>

definition initialCategories :: "Category list" where
  "initialCategories =
     [\<lparr>name = ''Work'', cat_color = ''#FF5733''\<rparr>,
      \<lparr>name = ''Personal'', cat_color = ''#33FF57''\<rparr>,
      \<lparr>name = ''Ideas'', cat_color = ''#3357FF''\<rparr>,
      \<lparr>name = ''To-Do'', cat_color = ''#FF33F5''\<rparr>]"

definition welcomeNote1 :: "Date \<Rightarrow> Note" where
  "welcomeNote1 now =
     \<lparr>title = ''Welcome to Notelytic'',
      content = ''This is your new note-taking dashboard!'',
      category = ''Personal'', color = ''#33FF57'', image_n = None, tags = [''welcome''],
      id_n = ''1'', createdAt = now, updatedAt = now, isPinned = False, isArchived = False\<rparr>"

definition welcomeNote2 :: "Date \<Rightarrow> Note" where
  "welcomeNote2 now =
     \<lparr>title = ''Getting Started'',
      content = ''Click the + button to add a new note.'',
      category = ''To-Do'', color = ''#FF33F5'', image_n = None, tags = [''tutorial''],
      id_n = ''2'', createdAt = now, updatedAt = now, isPinned = False, isArchived = False\<rparr>"

definition welcomeNote3 :: "Date \<Rightarrow> Note" where
  "welcomeNote3 now =
     \<lparr>title = ''Features'',
      content = ''Notelytic supports rich text editing, image uploads, and more!'',
      category = ''Ideas'', color = ''#3357FF'', image_n = None, tags = [''features''],
      id_n = ''3'', createdAt = now, updatedAt = now, isPinned = False, isArchived = False\<rparr>"

definition welcomeNotes :: "Date \<Rightarrow> Note list" where
  "welcomeNotes now = [welcomeNote1 now, welcomeNote2 now, welcomeNote3 now]"

text \<open>
  The state the component is mounted with, over a database that has just been created, and
  the effect that loads the stored data. The welcome notes and the initial categories are
  saved without waiting for the stores; the model saves them on the spot, and reads the
  clock once for all welcome notes.
\<close>

definition initialState :: "'d app_state_of" where
  "initialState =
     \<lparr>notes = [],
      newNote = emptyNewNote,
      editingNote = None,
      isAddingNote = False,
      categories = initialCategories,
      db = \<lparr>notes_store = [], categories_store = []\<rparr>,
      toasts = []\<rparr>"

definition initializeData :: "Date \<Rightarrow> app_state \<Rightarrow> error + app_state" where
  "initializeData now st =
     (case getAllFromIndexedDB ''notes'' (db st) of
        Inl err \<Rightarrow> Inl err
      | Inr savedNotes \<Rightarrow>
          (case getAllFromIndexedDB ''categories'' (db st) of
             Inl err \<Rightarrow> Inl err
           | Inr savedCategories \<Rightarrow>
               let st1 =
                     (if length savedNotes > 0
                      then st\<lparr>notes := map (withDates (\<lambda>date. date)) (asNotes savedNotes)\<rparr>
                      else st\<lparr>notes := welcomeNotes now,
                              db := snd (saveAll ''notes'' (map NoteData (welcomeNotes now))
                                           (db st))\<rparr>)
               in Inr (if length savedCategories > 0
                       then st1\<lparr>categories := asCategories savedCategories\<rparr>
                       else st1\<lparr>db := snd (saveAll ''categories''
                                                (map CategoryData initialCategories)
                                                (db st1))\<rparr>)))"

text \<open>
  The state after a first start at time \<open>now\<close>: the welcome notes and the initial
  categories, in the state and in the stores.
\<close>

definition firstStart :: "Date \<Rightarrow> app_state" where
  "firstStart now =
     \<lparr>notes = welcomeNotes now,
      newNote = emptyNewNote,
      editingNote = None,
      isAddingNote = False,
      categories = initialCategories,
      db = \<lparr>notes_store = foldl (\<lambda>d n. os_put id_n n d) [] (welcomeNotes now),
             categories_store = foldl (\<lambda>d c. os_put name c d) [] initialCategories\<rparr>,
      toasts = []\<rparr>"

text \<open>
  The browser's two date conversions are parameters of export and import. The examples
  below instantiate them by a pair that writes a date as its number of milliseconds in
  decimal digits and reads it back.
\<close>

definition msToISOString :: "Date \<Rightarrow> string" where
  "msToISOString t = toString t"

definition digits_value :: "string \<Rightarrow> nat" where
  "digits_value s = foldl (\<lambda>acc c. 10 * acc + (of_char c - 48)) 0 s"

definition msNewDate :: "string \<Rightarrow> Date" where
  "msNewDate s =
     (case s of
        [] \<Rightarrow> 0
      | c # r \<Rightarrow> if c = CHR ''-'' then - int (digits_value r) else int (digits_value s))"

text \<open>
  The parser that goes with \<open>msToISOString\<close>: a string that is not a number of
  milliseconds is no date.
\<close>

definition is_digit :: "char \<Rightarrow> bool" where
  "is_digit c = (48 \<le> (of_char c :: nat) \<and> (of_char c :: nat) \<le> 57)"

definition msDateParse :: "string \<Rightarrow> int option" where
  "msDateParse s =
     (case s of
        [] \<Rightarrow> None
      | c # r \<Rightarrow>
          if c = CHR ''-'' then
            (if r \<noteq> [] \<and> list_all is_digit r then Some (- int (digits_value r)) else None)
          else if list_all is_digit s then Some (int (digits_value s)) else None)"

text \<open>
  Two backup files with one note each, and the states after their import at a first
  mount. The dates of the first file are dates; the \<open>createdAt\<close> of the second is not.
\<close>

definition backupNote :: "json_date \<Rightarrow> json_date Note_of" where
  "backupNote created =
     \<lparr>title = ''Kept'', content = ''From a backup'', category = ''Work'',
      color = ''#FF5733'', image_n = None, tags = [],
      id_n = ''8'', createdAt = created, updatedAt = JsonString ''2000'',
      isPinned = False, isArchived = False\<rparr>"

definition datedBackup :: "json_date ImportedData" where
  "datedBackup =
     \<lparr>notes_f = Some [backupNote (JsonString ''1000'')],
      categories_f = Some [\<lparr>name = ''Work'', cat_color = ''#FF5733''\<rparr>]\<rparr>"

definition undatedBackup :: "json_date ImportedData" where
  "undatedBackup =
     \<lparr>notes_f = Some [backupNote (JsonString ''soon'')],
      categories_f = Some [\<lparr>name = ''Work'', cat_color = ''#FF5733''\<rparr>]\<rparr>"

definition datedState :: "int option app_state_of" where
  "datedState = importNotes (dateFromJSON msDateParse) (Parsed datedBackup) initialState"

definition undatedState :: "int option app_state_of" where
  "undatedState = importNotes (dateFromJSON msDateParse) (Parsed undatedBackup) initialState"

text \<open>A draft with every required field, in a state whose only category has no colour.\<close>

definition colourlessCategoryState :: app_state where
  "colourlessCategoryState =
     \<lparr>notes = [],
      newNote = \<lparr>title = ''Plan'', content = ''Write it down'', category = ''Work'',
                 color = [], image_n = Some [], tags = []\<rparr>,
      editingNote = None,
      isAddingNote = True,
      categories = [\<lparr>name = ''Work'', cat_color = []\<rparr>],
      db = \<lparr>notes_store = [], categories_store = [\<lparr>name = ''Work'', cat_color = []\<rparr>]\<rparr>,
      toasts = []\<rparr>"



text \<open>A backup file with four pinned notes and no categories.\<close>

definition pinnedBackupNote :: "string \<Rightarrow> string Note_of" where
  "pinnedBackupNote k =
     \<lparr>title = ''Pinned'', content = ''From a backup'', category = ''Work'',
      color = ''#FF5733'', image_n = None, tags = [],
      id_n = k, createdAt = ''1000'', updatedAt = ''2000'',
      isPinned = True, isArchived = False\<rparr>"

definition fourPinnedBackup :: "string ImportedData" where
  "fourPinnedBackup =
     \<lparr>notes_f = Some [pinnedBackupNote ''4'', pinnedBackupNote ''5'', pinnedBackupNote ''6'',
                      pinnedBackupNote ''7''],
      categories_f = Some []\<rparr>"

text \<open>A state with three pinned notes and a fourth, unpinned one.\<close>

definition threePinnedNotes :: "Note list" where
  "threePinnedNotes =
     [(welcomeNote1 0)\<lparr>isPinned := True\<rparr>, (welcomeNote2 0)\<lparr>isPinned := True\<rparr>,
      (welcomeNote3 0)\<lparr>isPinned := True\<rparr>, (welcomeNote1 0)\<lparr>id_n := ''4''\<rparr>]"

definition threePinnedState :: app_state where
  "threePinnedState =
     (firstStart 0)\<lparr>notes := threePinnedNotes,
                    db := (db (firstStart 0))\<lparr>notes_store := threePinnedNotes\<rparr>\<rparr>"


section \<open>The filter of the view, in the words of its description\<close>






text \<open>
  A comparison to put in the place of \<open>localeCompare\<close> in the examples: the order of the
  character codes.
\<close>

definition codeUnitCompare :: "string \<Rightarrow> string \<Rightarrow> int" where
  "codeUnitCompare a b = (if a < b then - 1 else if a = b then 0 else 1)"


section \<open>Object stores: one record per key\<close>

lemma os_put_keys:
  "set (map key (os_put key r xs)) = insert (key r) (set (map key xs))"
  by (induction xs) auto

lemma valid_store_Cons:
  "valid_store key (x # xs) \<longleftrightarrow> (\<forall>y \<in> set xs. key x < key y) \<and> valid_store key xs"
  by (auto simp: valid_store_def)

lemma os_put_valid:
  "valid_store key xs \<Longrightarrow> valid_store key (os_put key r xs)"
proof (induction xs)
  case Nil
  then show ?case by (simp add: valid_store_def)
next
  case (Cons x xs)
  have tl: "valid_store key xs" and above: "\<forall>y \<in> set xs. key x < key y"
    using Cons.prems by (simp_all add: valid_store_Cons)
  show ?case
  proof (cases "key r = key x")
    case True
    then show ?thesis using Cons.prems by (simp add: valid_store_Cons)
  next
    case neq: False
    show ?thesis
    proof (cases "key r < key x")
      case True
      then show ?thesis
        using Cons.prems neq by (auto simp: valid_store_Cons)
    next
      case False
      then have lt: "key x < key r" using neq by simp
      have "\<forall>k \<in> set (map key (os_put key r xs)). key x < k"
        using above lt by (simp only: os_put_keys) auto
      then show ?thesis
        using Cons.IH [OF tl] neq False by (simp add: valid_store_Cons)
    qed
  qed
qed

lemma valid_store_distinct:
  "valid_store key xs \<Longrightarrow> distinct (map key xs)"
  unfolding valid_store_def by (simp add: strict_sorted_iff)

lemma os_put_others:
  "filter (\<lambda>x. key x \<noteq> key r) (os_put key r xs) = filter (\<lambda>x. key x \<noteq> key r) xs"
  by (induction xs) auto

lemma filter_none: "(\<forall>y \<in> set xs. \<not> P y) \<Longrightarrow> filter P xs = []"
  by (induction xs) auto

lemma os_put_same:
  "valid_store key xs \<Longrightarrow> filter (\<lambda>x. key x = key r) (os_put key r xs) = [r]"
proof (induction xs)
  case Nil
  then show ?case by simp
next
  case (Cons x xs)
  have tl: "valid_store key xs" and above: "\<forall>y \<in> set xs. key x < key y"
    using Cons.prems by (simp_all add: valid_store_Cons)
  show ?case
  proof (cases "key r = key x")
    case True
    then have "\<forall>y \<in> set xs. \<not> key y = key r" using above by auto
    then show ?thesis using True by (simp add: filter_none)
  next
    case neq: False
    show ?thesis
    proof (cases "key r < key x")
      case True
      then have "\<forall>y \<in> set xs. \<not> key y = key r" using above by fastforce
      then show ?thesis using True neq by (auto simp add: filter_none)
    next
      case False
      then show ?thesis using Cons.IH [OF tl] neq by auto
    qed
  qed
qed

lemma os_delete_filter:
  "valid_store key xs \<Longrightarrow> os_delete key k xs = filter (\<lambda>x. key x \<noteq> k) xs"
proof (induction xs)
  case Nil
  then show ?case by simp
next
  case (Cons x xs)
  have tl: "valid_store key xs" and above: "\<forall>y \<in> set xs. key x < key y"
    using Cons.prems by (simp_all add: valid_store_Cons)
  show ?case
  proof (cases "key x = k")
    case True
    then have "\<forall>y \<in> set xs. key y \<noteq> k" using above by auto
    then have "filter (\<lambda>x. key x \<noteq> k) xs = xs" by (simp add: filter_id_conv)
    then show ?thesis using True by simp
  next
    case False
    then show ?thesis using Cons.IH [OF tl] by simp
  qed
qed

lemma valid_store_filter:
  "valid_store key xs \<Longrightarrow> valid_store key (filter P xs)"
  unfolding valid_store_def by (induction xs) auto

lemma os_delete_valid:
  "valid_store key xs \<Longrightarrow> valid_store key (os_delete key k xs)"
  by (simp add: os_delete_filter valid_store_filter)

lemma os_put_absorb:
  "valid_store key xs \<Longrightarrow> r \<in> set xs \<Longrightarrow> os_put key r xs = xs"
proof (induction xs)
  case Nil
  then show ?case by simp
next
  case (Cons x xs)
  have tl: "valid_store key xs" and above: "\<forall>y \<in> set xs. key x < key y"
    using Cons.prems by (simp_all add: valid_store_Cons)
  show ?case
  proof (cases "r = x")
    case True
    then show ?thesis by simp
  next
    case False
    then have mem: "r \<in> set xs" using Cons.prems by simp
    then have "key x < key r" using above by simp
    then show ?thesis using Cons.IH [OF tl mem] by auto
  qed
qed

lemma stored_notes: "stored ''notes'' d = map NoteData (notes_store d)"
  by (simp add: stored_def getAllFromIndexedDB_def os_getAll_def)

lemma stored_categories: "stored ''categories'' d = map CategoryData (categories_store d)"
  by (simp add: stored_def getAllFromIndexedDB_def os_getAll_def)

lemma stored_other:
  "sn \<noteq> ''notes'' \<Longrightarrow> sn \<noteq> ''categories'' \<Longrightarrow> stored sn d = []"
  by (simp add: stored_def getAllFromIndexedDB_def)

lemma save_note:
  "saveToIndexedDB ''notes'' (NoteData n) d = Inr (d\<lparr>notes_store := os_put id_n n (notes_store d)\<rparr>)"
  by (simp add: saveToIndexedDB_def)

lemma save_category:
  "saveToIndexedDB ''categories'' (CategoryData c) d =
     Inr (d\<lparr>categories_store := os_put name c (categories_store d)\<rparr>)"
  by (simp add: saveToIndexedDB_def)

lemma delete_note_key:
  "deleteFromIndexedDB ''notes'' k d = Inr (d\<lparr>notes_store := os_delete id_n k (notes_store d)\<rparr>)"
  by (simp add: deleteFromIndexedDB_def)

lemma delete_category_key:
  "deleteFromIndexedDB ''categories'' k d =
     Inr (d\<lparr>categories_store := os_delete name k (categories_store d)\<rparr>)"
  by (simp add: deleteFromIndexedDB_def)

lemma save_cases:
  assumes "saveToIndexedDB sn r d = Inr d'"
  obtains (in_notes) n where "sn = ''notes''" "r = NoteData n"
      "d' = d\<lparr>notes_store := os_put id_n n (notes_store d)\<rparr>"
    | (in_categories) c where "sn = ''categories''" "r = CategoryData c"
      "d' = d\<lparr>categories_store := os_put name c (categories_store d)\<rparr>"
  using assms by (auto simp: saveToIndexedDB_def split: if_splits entity_of.splits)

lemma delete_cases:
  assumes "deleteFromIndexedDB sn k d = Inr d'"
  obtains (in_notes) "sn = ''notes''" "d' = d\<lparr>notes_store := os_delete id_n k (notes_store d)\<rparr>"
    | (in_categories) "sn = ''categories''"
      "d' = d\<lparr>categories_store := os_delete name k (categories_store d)\<rparr>"
  using assms by (auto simp: deleteFromIndexedDB_def split: if_splits)

lemma key_note: "entity_key ''notes'' (NoteData n) = Some (id_n n)"
  by (simp add: entity_key_def)

lemma key_category: "entity_key ''categories'' (CategoryData c) = Some (name c)"
  by (simp add: entity_key_def)

lemma stored_one_per_key:
  assumes "valid_db d"
  shows "distinct (map (entity_key sn) (stored sn d))"
proof -
  have n: "distinct (map id_n (notes_store d))" and c: "distinct (map name (categories_store d))"
    using assms by (simp_all add: valid_db_def valid_store_distinct)
  consider "sn = ''notes''" | "sn = ''categories''" | "sn \<noteq> ''notes''" "sn \<noteq> ''categories''"
    by blast
  then show ?thesis
  proof cases
    case 1
    have "map (entity_key ''notes'') (stored ''notes'' d)
        = map Some (map id_n (notes_store d))"
      by (simp add: stored_notes key_note)
    then show ?thesis using n 1 by (simp add: distinct_map del: map_map)
  next
    case 2
    have "map (entity_key ''categories'') (stored ''categories'' d)
        = map Some (map name (categories_store d))"
      by (simp add: stored_categories key_category)
    then show ?thesis using c 2 by (simp add: distinct_map del: map_map)
  next
    case 3
    then show ?thesis by (simp add: stored_other)
  qed
qed

lemma save_effect:
  assumes v: "valid_db d" and s: "saveToIndexedDB sn r d = Inr d'"
  shows "valid_db d'"
    and "filter (\<lambda>x. entity_key sn x = entity_key sn r) (stored sn d') = [r]"
    and "filter (\<lambda>x. entity_key sn x \<noteq> entity_key sn r) (stored sn d')
         = filter (\<lambda>x. entity_key sn x \<noteq> entity_key sn r) (stored sn d)"
proof -
  have vn: "valid_store id_n (notes_store d)" and vc: "valid_store name (categories_store d)"
    using v by (simp_all add: valid_db_def)
  from s show "valid_db d'"
    by (cases rule: save_cases) (use vn vc in \<open>simp_all add: valid_db_def os_put_valid\<close>)
  from s show "filter (\<lambda>x. entity_key sn x = entity_key sn r) (stored sn d') = [r]"
  proof (cases rule: save_cases)
    case (in_notes n)
    then show ?thesis using os_put_same [OF vn, of n] by (simp add: stored_notes stored_categories key_note key_category filter_map comp_def)
  next
    case (in_categories c)
    then show ?thesis using os_put_same [OF vc, of c] by (simp add: stored_notes stored_categories key_note key_category filter_map comp_def)
  qed
  from s show "filter (\<lambda>x. entity_key sn x \<noteq> entity_key sn r) (stored sn d')
         = filter (\<lambda>x. entity_key sn x \<noteq> entity_key sn r) (stored sn d)"
  proof (cases rule: save_cases)
    case (in_notes n)
    then show ?thesis using os_put_others [of id_n n "notes_store d"]
      by (simp add: stored_notes stored_categories key_note key_category filter_map comp_def)
  next
    case (in_categories c)
    then show ?thesis using os_put_others [of name c "categories_store d"]
      by (simp add: stored_notes stored_categories key_note key_category filter_map comp_def)
  qed
qed

lemma delete_effect:
  assumes v: "valid_db d" and s: "deleteFromIndexedDB sn k d = Inr d'"
  shows "valid_db d'"
    and "stored sn d' = filter (\<lambda>x. entity_key sn x \<noteq> Some k) (stored sn d)"
proof -
  have vn: "valid_store id_n (notes_store d)" and vc: "valid_store name (categories_store d)"
    using v by (simp_all add: valid_db_def)
  from s show "valid_db d'"
    by (cases rule: delete_cases) (use vn vc in \<open>simp_all add: valid_db_def os_delete_valid\<close>)
  from s show "stored sn d' = filter (\<lambda>x. entity_key sn x \<noteq> Some k) (stored sn d)"
    by (cases rule: delete_cases)
      (use vn vc in \<open>simp_all add: stored_notes stored_categories key_note key_category os_delete_filter filter_map comp_def\<close>)
qed

lemma save_succeeds:
  "entity_key sn r \<noteq> None \<Longrightarrow> \<exists>d'. saveToIndexedDB sn r d = Inr d'"
  by (cases r) (auto simp: entity_key_def save_note save_category split: if_splits)

lemma delete_succeeds:
  "sn = ''notes'' \<or> sn = ''categories'' \<Longrightarrow> \<exists>d'. deleteFromIndexedDB sn k d = Inr d'"
  by (auto simp: delete_note_key delete_category_key)

text \<open>
  Claim C6. The storage layer is an upsert, a list-all and a delete over stores keyed by
  note id and category name. In a database whose stores are in key order, a store lists at
  most one record per key. A save of a record that has the store's key succeeds; after it
  the store lists the saved record as the only record of its key, and the records of every
  other key as before, so a save under a key already present replaces that record. A delete
  on either store succeeds and removes the record of the given key and nothing else. Both
  leave the stores in key order.
\<close>

theorem storage_upsert_list_delete:
  assumes "valid_db d"
  shows "distinct (map (entity_key sn) (stored sn d)) \<and>
    (entity_key sn r \<noteq> None \<longrightarrow> (\<exists>d'. saveToIndexedDB sn r d = Inr d')) \<and>
    (\<forall>d'. saveToIndexedDB sn r d = Inr d' \<longrightarrow>
        valid_db d' \<and>
        filter (\<lambda>x. entity_key sn x = entity_key sn r) (stored sn d') = [r] \<and>
        filter (\<lambda>x. entity_key sn x \<noteq> entity_key sn r) (stored sn d')
          = filter (\<lambda>x. entity_key sn x \<noteq> entity_key sn r) (stored sn d)) \<and>
    (sn = ''notes'' \<or> sn = ''categories'' \<longrightarrow> (\<exists>d'. deleteFromIndexedDB sn k d = Inr d')) \<and>
    (\<forall>d'. deleteFromIndexedDB sn k d = Inr d' \<longrightarrow>
        valid_db d' \<and>
        stored sn d' = filter (\<lambda>x. entity_key sn x \<noteq> Some k) (stored sn d))"
proof (intro conjI allI impI)
  show "distinct (map (entity_key sn) (stored sn d))"
    by (rule stored_one_per_key [OF assms])
  show "\<exists>d'. saveToIndexedDB sn r d = Inr d'" if "entity_key sn r \<noteq> None"
    by (rule save_succeeds [OF that])
  show "\<exists>d'. deleteFromIndexedDB sn k d = Inr d'" if "sn = ''notes'' \<or> sn = ''categories''"
    by (rule delete_succeeds [OF that])
  fix d'
  assume s: "saveToIndexedDB sn r d = Inr d'"
  show "valid_db d'"
    by (rule save_effect(1) [OF assms s])
  show "filter (\<lambda>x. entity_key sn x = entity_key sn r) (stored sn d') = [r]"
    by (rule save_effect(2) [OF assms s])
  show "filter (\<lambda>x. entity_key sn x \<noteq> entity_key sn r) (stored sn d')
          = filter (\<lambda>x. entity_key sn x \<noteq> entity_key sn r) (stored sn d)"
    by (rule save_effect(3) [OF assms s])
next
  fix d'
  assume s: "deleteFromIndexedDB sn k d = Inr d'"
  show "valid_db d'"
    by (rule delete_effect(1) [OF assms s])
  show "stored sn d' = filter (\<lambda>x. entity_key sn x \<noteq> Some k) (stored sn d)"
    by (rule delete_effect(2) [OF assms s])
qed

theorem storage_upsert_list_delete_witness:
  "valid_db (db (firstStart 0)) \<and>
   (\<exists>d'. saveToIndexedDB ''notes'' (NoteData ((welcomeNote1 0)\<lparr>title := ''Hello''\<rparr>))
            (db (firstStart 0)) = Inr d' \<and>
         filter (\<lambda>x. entity_key ''notes'' x = Some ''1'') (stored ''notes'' d')
           = [NoteData ((welcomeNote1 0)\<lparr>title := ''Hello''\<rparr>)]) \<and>
   (\<exists>d'. deleteFromIndexedDB ''notes'' ''2'' (db (firstStart 0)) = Inr d' \<and>
         stored ''notes'' d' = [NoteData (welcomeNote1 0), NoteData (welcomeNote3 0)])"
proof -
  let ?r = "NoteData ((welcomeNote1 0)\<lparr>title := ''Hello''\<rparr>)"
  have v: "valid_db (db (firstStart 0))"
    by code_simp
  have k: "entity_key ''notes'' ?r = Some ''1''"
    by (simp add: key_note welcomeNote1_def)
  have st: "stored ''notes'' (db (firstStart 0))
      = [NoteData (welcomeNote1 0), NoteData (welcomeNote2 0), NoteData (welcomeNote3 0)]"
    by (simp add: stored_notes firstStart_def welcomeNotes_def welcomeNote1_def
        welcomeNote2_def welcomeNote3_def)
  have f: "filter (\<lambda>x. entity_key ''notes'' x \<noteq> Some ''2'')
      [NoteData (welcomeNote1 0), NoteData (welcomeNote2 0), NoteData (welcomeNote3 0)]
      = [NoteData (welcomeNote1 0), NoteData (welcomeNote3 0)]"
    by (simp add: key_note welcomeNote1_def welcomeNote2_def welcomeNote3_def)
  note inst = storage_upsert_list_delete [OF v, of "''notes''" ?r "''2''"]
  from inst obtain d1 where d1: "saveToIndexedDB ''notes'' ?r (db (firstStart 0)) = Inr d1"
    using k by auto
  from inst obtain d2 where d2: "deleteFromIndexedDB ''notes'' ''2'' (db (firstStart 0)) = Inr d2"
    by auto
  have "filter (\<lambda>x. entity_key ''notes'' x = entity_key ''notes'' ?r) (stored ''notes'' d1)
      = [?r]"
    using inst d1 by blast
  then have a: "filter (\<lambda>x. entity_key ''notes'' x = Some ''1'') (stored ''notes'' d1) = [?r]"
    by (simp only: k)
  have "stored ''notes'' d2
      = filter (\<lambda>x. entity_key ''notes'' x \<noteq> Some ''2'') (stored ''notes'' (db (firstStart 0)))"
    using inst d2 by blast
  then have b: "stored ''notes'' d2 = [NoteData (welcomeNote1 0), NoteData (welcomeNote3 0)]"
    by (simp only: st f)
  show ?thesis using v d1 d2 a b by blast
qed


section \<open>The list of all tags\<close>

lemma set_add_set: "set (set_add x s) = insert x (set s)"
  by (auto simp: set_add_def)

lemma set_add_distinct: "distinct s \<Longrightarrow> distinct (set_add x s)"
  by (simp add: set_add_def)

lemma fold_set_add_set: "set (fold set_add xs s) = set s \<union> set xs"
  by (induction xs arbitrary: s) (auto simp: set_add_set)

lemma fold_set_add_distinct: "distinct s \<Longrightarrow> distinct (fold set_add xs s)"
  by (induction xs arbitrary: s) (simp_all add: set_add_distinct)

lemma collect_tags_set:
  "set (fold (\<lambda>note tgs. fold set_add (tags note) tgs) ns s)
     = set s \<union> (\<Union>n \<in> set ns. set (tags n))"
  by (induction ns arbitrary: s) (auto simp: fold_set_add_set)

lemma collect_tags_distinct:
  "distinct s \<Longrightarrow> distinct (fold (\<lambda>note tgs. fold set_add (tags note) tgs) ns s)"
  by (induction ns arbitrary: s) (simp_all add: fold_set_add_distinct)

lemma distinct_count_one: "distinct xs \<Longrightarrow> x \<in> set xs \<Longrightarrow> count_list xs x = 1"
  by (induction xs) auto

text \<open>
  Claim C7. For every notes list, \<open>allTags\<close> is the duplicate-free union of the tags of
  all notes, archived or not: it has no element twice, its elements are exactly the tags of
  the notes, and so every tag of every note occurs in it exactly once.
\<close>

theorem allTags_duplicate_free_union:
  "distinct (allTags ns) \<and>
   set (allTags ns) = (\<Union>n \<in> set ns. set (tags n)) \<and>
   (\<forall>n \<in> set ns. \<forall>t \<in> set (tags n). count_list (allTags ns) t = 1)"
proof -
  have d: "distinct (allTags ns)"
    unfolding allTags_def by (rule collect_tags_distinct) simp
  have s: "set (allTags ns) = (\<Union>n \<in> set ns. set (tags n))"
    unfolding allTags_def by (simp add: collect_tags_set)
  have "count_list (allTags ns) t = 1" if "n \<in> set ns" "t \<in> set (tags n)" for n t
    using that d s by (intro distinct_count_one) auto
  then show ?thesis using d s by blast
qed

theorem allTags_duplicate_free_union_witness:
  "welcomeNote1 0 \<in> set [welcomeNote1 0, (welcomeNote2 0)\<lparr>tags := [''welcome'', ''tutorial''], isArchived := True\<rparr>] \<and>
   ''welcome'' \<in> set (tags (welcomeNote1 0)) \<and>
   allTags [welcomeNote1 0, (welcomeNote2 0)\<lparr>tags := [''welcome'', ''tutorial''], isArchived := True\<rparr>]
     = [''welcome'', ''tutorial''] \<and>
   count_list (allTags [welcomeNote1 0, (welcomeNote2 0)\<lparr>tags := [''welcome'', ''tutorial''], isArchived := True\<rparr>])
     ''welcome'' = 1"
proof -
  let ?ns = "[welcomeNote1 0, (welcomeNote2 0)\<lparr>tags := [''welcome'', ''tutorial''], isArchived := True\<rparr>]"
  have m: "welcomeNote1 0 \<in> set ?ns" by simp
  have t: "''welcome'' \<in> set (tags (welcomeNote1 0))" by (simp add: welcomeNote1_def)
  have e: "allTags ?ns = [''welcome'', ''tutorial'']"
    by (simp add: allTags_def set_add_def welcomeNote1_def welcomeNote2_def)
  have "count_list (allTags ?ns) ''welcome'' = 1"
    using allTags_duplicate_free_union [of ?ns] m t by blast
  then show ?thesis using m t e by blast
qed

section \<open>Normalised tags\<close>

lemma trim_Nil: "trim [] = []"
  by (simp add: trim_def)

lemma last_dropWhile_ne: "dropWhile P xs \<noteq> [] \<Longrightarrow> last (dropWhile P xs) = last xs"
  by (induction xs) (auto split: if_splits)

lemma trim_hd: "trim s \<noteq> [] \<Longrightarrow> \<not> is_whitespace (hd (trim s))"
proof -
  assume ne: "trim s \<noteq> []"
  let ?v = "dropWhile is_whitespace s"
  let ?w = "dropWhile is_whitespace (rev ?v)"
  have w: "?w \<noteq> []" using ne by (simp add: trim_def)
  have v: "?v \<noteq> []"
  proof
    assume e: "?v = []"
    have "?w = []" unfolding e by simp
    with w show False by (simp only:)
  qed
  have "hd (trim s) = last ?w" using w by (simp add: trim_def hd_rev)
  also have "\<dots> = last (rev ?v)" using w by (rule last_dropWhile_ne)
  also have "\<dots> = hd ?v" using v by (simp add: last_rev)
  finally show ?thesis using hd_dropWhile [OF v] by simp
qed

lemma trim_last: "trim s \<noteq> [] \<Longrightarrow> \<not> is_whitespace (last (trim s))"
proof -
  assume ne: "trim s \<noteq> []"
  let ?w = "dropWhile is_whitespace (rev (dropWhile is_whitespace s))"
  have w: "?w \<noteq> []" using ne by (simp add: trim_def)
  have "last (trim s) = hd ?w" using w by (simp add: trim_def last_rev)
  then show ?thesis using hd_dropWhile [OF w] by simp
qed

lemma trim_fixed:
  assumes "u \<noteq> [] \<Longrightarrow> \<not> is_whitespace (hd u)" "u \<noteq> [] \<Longrightarrow> \<not> is_whitespace (last u)"
  shows "trim u = u"
proof (cases "u = []")
  case True
  then show ?thesis by (simp add: trim_def)
next
  case False
  have a: "dropWhile is_whitespace u = u"
    using assms(1) False by (simp add: dropWhile_eq_self_iff)
  have "dropWhile is_whitespace (rev u) = rev u"
    using assms(2) False by (simp add: dropWhile_eq_self_iff hd_rev)
  then show ?thesis using a by (simp add: trim_def)
qed

lemma trim_idem: "trim (trim s) = trim s"
  by (rule trim_fixed) (rule trim_hd, assumption, rule trim_last, assumption)

lemma normalizeTags_alt: "normalizeTags tgs = filter (\<lambda>t. t \<noteq> []) (map trim tgs)"
  by (simp add: normalizeTags_def filter_map comp_def)

lemma normalizeTags_elem:
  assumes "t \<in> set (normalizeTags tgs)"
  shows "t \<noteq> []" "trim t = t" "\<not> is_whitespace (hd t)" "\<not> is_whitespace (last t)"
proof -
  from assms obtain s where s: "t = trim s" "trim s \<noteq> []"
    by (auto simp: normalizeTags_def)
  show "t \<noteq> []" using s by simp
  show "trim t = t" using s by (simp add: trim_idem)
  show "\<not> is_whitespace (hd t)" using s trim_hd by simp
  show "\<not> is_whitespace (last t)" using s trim_last by simp
qed


section \<open>What the operations return\<close>

lemma find_id_Some:
  assumes "find (\<lambda>n. id_n n = k) ns = Some m"
  shows "m \<in> set ns" "id_n m = k"
  using assms by (auto simp: find_Some_iff)

lemma find_id_None:
  "find (\<lambda>n. id_n n = k) ns = None \<Longrightarrow> \<forall>n \<in> set ns. id_n n \<noteq> k"
  by (auto simp: find_None_iff)

lemma replaceNote_absent:
  "\<forall>n \<in> set ns. id_n n \<noteq> k \<Longrightarrow> map (\<lambda>n. if id_n n = k then f n else n) ns = ns"
  by (induction ns) auto

lemma replaceNote_distinct:
  assumes "distinct (map id_n ns)" and "find (\<lambda>n. id_n n = k) ns = Some m"
  shows "replaceNote k (f m) ns = map (\<lambda>n. if id_n n = k then f n else n) ns"
proof -
  have m: "m \<in> set ns" "id_n m = k"
    using find_id_Some [OF assms(2)] by simp_all
  have inj: "inj_on id_n (set ns)"
    using assms(1) by (simp add: distinct_map)
  have "n = m" if "n \<in> set ns" "id_n n = k" for n
    using inj that m by (auto dest: inj_onD)
  then show ?thesis
    unfolding replaceNote_def by (intro map_cong) auto
qed

text \<open>What each operation returns, case by case.\<close>

lemma togglePinNote_absent:
  "find (\<lambda>n. id_n n = k) (notes st) = None \<Longrightarrow> togglePinNote k st = Inr st"
  by (simp add: togglePinNote_def)

lemma togglePinNote_refused:
  "find (\<lambda>n. id_n n = k) (notes st) = Some m \<Longrightarrow> \<not> isPinned m \<Longrightarrow>
   3 \<le> pinnedCount (notes st) \<Longrightarrow>
   togglePinNote k st =
     Inr (st\<lparr>toasts := toasts st @ [ToastError ''You can only pin up to 3 notes'']\<rparr>)"
  by (simp add: togglePinNote_def)

lemma togglePinNote_done:
  "find (\<lambda>n. id_n n = k) (notes st) = Some m \<Longrightarrow> isPinned m \<or> pinnedCount (notes st) < 3 \<Longrightarrow>
   togglePinNote k st =
     Inr (st\<lparr>db := (db st)\<lparr>notes_store :=
                 os_put id_n (m\<lparr>isPinned := \<not> isPinned m\<rparr>) (notes_store (db st))\<rparr>,
             notes := replaceNote k (m\<lparr>isPinned := \<not> isPinned m\<rparr>) (notes st),
             toasts := toasts st @
               [if \<not> isPinned m then ToastSuccess ''Note pinned''
                else ToastInfo ''Note unpinned'']\<rparr>)"
  by (auto simp: togglePinNote_def Let_def save_note)

lemma toggleArchiveNote_absent:
  "find (\<lambda>n. id_n n = k) (notes st) = None \<Longrightarrow> toggleArchiveNote k st = Inr st"
  by (simp add: toggleArchiveNote_def)

lemma toggleArchiveNote_done:
  "find (\<lambda>n. id_n n = k) (notes st) = Some m \<Longrightarrow>
   toggleArchiveNote k st =
     Inr (st\<lparr>db := (db st)\<lparr>notes_store :=
                 os_put id_n (m\<lparr>isArchived := \<not> isArchived m\<rparr>) (notes_store (db st))\<rparr>,
             notes := replaceNote k (m\<lparr>isArchived := \<not> isArchived m\<rparr>) (notes st),
             toasts := toasts st @
               [if \<not> isArchived m then ToastSuccess ''Note archived''
                else ToastInfo ''Note unarchived'']\<rparr>)"
  by (simp add: toggleArchiveNote_def Let_def save_note)

lemma handleTagChange_draft:
  "noteId = None \<or> noteId = Some [] \<Longrightarrow>
   handleTagChange tgs noteId st =
     Inr (st\<lparr>newNote := (newNote st)\<lparr>tags := normalizeTags tgs\<rparr>\<rparr>)"
  by (auto simp: handleTagChange_def Let_def)

lemma handleTagChange_absent:
  "k \<noteq> [] \<Longrightarrow> find (\<lambda>n. id_n n = k) (notes st) = None \<Longrightarrow>
   handleTagChange tgs (Some k) st = Inr st"
  by (simp add: handleTagChange_def Let_def)

lemma handleTagChange_done:
  "k \<noteq> [] \<Longrightarrow> find (\<lambda>n. id_n n = k) (notes st) = Some m \<Longrightarrow>
   handleTagChange tgs (Some k) st =
     Inr (st\<lparr>db := (db st)\<lparr>notes_store :=
                 os_put id_n (m\<lparr>tags := normalizeTags tgs\<rparr>) (notes_store (db st))\<rparr>,
             notes := replaceNote k (m\<lparr>tags := normalizeTags tgs\<rparr>) (notes st),
             toasts := toasts st @ [ToastSuccess ''Tags updated successfully!'']\<rparr>)"
  by (simp add: handleTagChange_def Let_def save_note)

lemma updateNote_idle:
  "editingNote st = None \<Longrightarrow> updateNote now st = Inr st"
  by (simp add: updateNote_def)

lemma updateNote_done:
  "editingNote st = Some e \<Longrightarrow>
   updateNote now st =
     Inr (st\<lparr>db := (db st)\<lparr>notes_store :=
                 os_put id_n (e\<lparr>updatedAt := now\<rparr>) (notes_store (db st))\<rparr>,
             notes := replaceNote (id_n e) (e\<lparr>updatedAt := now\<rparr>) (notes st),
             editingNote := None,
             toasts := toasts st @ [ToastSuccess ''Note updated successfully!'']\<rparr>)"
  by (simp add: updateNote_def Let_def save_note)

lemma deleteNote_done:
  "deleteNote k st =
     Inr (st\<lparr>db := (db st)\<lparr>notes_store := os_delete id_n k (notes_store (db st))\<rparr>,
             notes := filter (\<lambda>note. id_n note \<noteq> k) (notes st),
             toasts := toasts st @ [ToastInfo ''Note deleted'']\<rparr>)"
  by (simp add: deleteNote_def delete_note_key)

lemma deleteCategory_done:
  "deleteCategory c st =
     Inr (st\<lparr>db := (db st)\<lparr>categories_store := os_delete name c (categories_store (db st))\<rparr>,
             categories := filter (\<lambda>cat. name cat \<noteq> c) (categories st),
             notes := map (\<lambda>note. if category note = c
                                    then note\<lparr>category := ''Uncategorized''\<rparr> else note)
                        (notes st),
             toasts := toasts st @ [ToastSuccess ''Category deleted successfully!'']\<rparr>)"
  by (simp add: deleteCategory_def delete_category_key)

lemma addNote_refused:
  "title (newNote st) = [] \<or> content (newNote st) = [] \<or> category (newNote st) = [] \<Longrightarrow>
   addNote now dateNow st =
     Inr (st\<lparr>toasts := toasts st @ [ToastError ''Please fill in all required fields'']\<rparr>)"
  by (auto simp: addNote_def Let_def)

lemma addNote_done:
  assumes "title (newNote st) \<noteq> []" "content (newNote st) \<noteq> []" "category (newNote st) \<noteq> []"
  shows "\<exists>n. addNote now dateNow st =
     Inr (st\<lparr>db := (db st)\<lparr>notes_store := os_put id_n n (notes_store (db st))\<rparr>,
             notes := notes st @ [n],
             newNote := emptyNewNote,
             isAddingNote := False,
             toasts := toasts st @ [ToastSuccess ''Note added successfully!'']\<rparr>) \<and>
     n = \<lparr>title = title (newNote st), content = content (newNote st),
          category = category (newNote st),
          color = categoryColor (categories st) (category (newNote st)),
          image_n = image_n (newNote st), tags = tags (newNote st),
          id_n = toString dateNow, createdAt = now, updatedAt = now,
          isPinned = False, isArchived = False\<rparr>"
  using assms by (simp add: addNote_def Let_def save_note)


section \<open>Tags written by handleTagChange\<close>

lemma os_put_member: "r \<in> set (os_put key r xs)"
  by (induction xs) auto

lemma os_put_only:
  assumes "valid_store key xs" "x \<in> set (os_put key r xs)" "key x = key r"
  shows "x = r"
proof -
  have "x \<in> set (filter (\<lambda>x. key x = key r) (os_put key r xs))"
    using assms(2,3) by simp
  then show ?thesis
    unfolding os_put_same [OF assms(1)] by simp
qed

lemma handleTagChange_saves:
  "\<exists>st'. handleTagChange tgs noteId st = Inr st' \<and>
     (if noteId = None \<or> noteId = Some []
      then tags (newNote st') = normalizeTags tgs \<and> notes st' = notes st \<and> db st' = db st
      else (\<forall>n \<in> set (notes st'). Some (id_n n) = noteId \<longrightarrow> tags n = normalizeTags tgs) \<and>
           (find (\<lambda>n. Some (id_n n) = noteId) (notes st) = None \<longrightarrow> db st' = db st) \<and>
           (\<forall>m. find (\<lambda>n. Some (id_n n) = noteId) (notes st) = Some m \<longrightarrow>
              m\<lparr>tags := normalizeTags tgs\<rparr> \<in> set (notes_store (db st')) \<and>
              (valid_db (db st) \<longrightarrow>
                 (\<forall>r \<in> set (notes_store (db st')).
                    Some (id_n r) = noteId \<longrightarrow> r = m\<lparr>tags := normalizeTags tgs\<rparr>))))"
proof (cases "noteId = None \<or> noteId = Some []")
  case True
  show ?thesis
    unfolding handleTagChange_draft [OF True] using True by simp
next
  case False
  then obtain k where k: "noteId = Some k" "k \<noteq> []" by auto
  have p: "(\<lambda>n. Some (id_n n) = noteId) = (\<lambda>n. id_n n = k)" for n :: Note
    using k by auto
  show ?thesis
  proof (cases "find (\<lambda>n. id_n n = k) (notes st)")
    case None
    have "\<forall>n \<in> set (notes st). Some (id_n n) \<noteq> noteId"
      using find_id_None [OF None] k by simp
    then show ?thesis
      unfolding p unfolding k(1) handleTagChange_absent [OF k(2) None] using k(2) None by simp
  next
    case (Some m)
    let ?u = "m\<lparr>tags := normalizeTags tgs\<rparr>"
    have i: "id_n ?u = k" using find_id_Some [OF Some] by simp
    have mem: "?u \<in> set (os_put id_n ?u (notes_store (db st)))"
      by (rule os_put_member)
    have only: "r = ?u" if "valid_db (db st)" "r \<in> set (os_put id_n ?u (notes_store (db st)))"
      "id_n r = k" for r
      using that i by (intro os_put_only [of id_n "notes_store (db st)"]) (simp_all add: valid_db_def)
    show ?thesis
      unfolding p unfolding k(1) handleTagChange_done [OF k(2) Some] using k(2) Some mem only
      by (auto simp: replaceNote_def)
  qed
qed

text \<open>
  Claim C10. For every input list, \<open>handleTagChange\<close> returns, and the tags it writes are
  the input with each element trimmed and the elements that trim to the empty string
  removed, in order. With no note id (or the empty one) they go to the draft, and neither
  the notes nor the database change. With the id of a listed note they go to every listed
  note of that id, and the first such note, with these tags, is saved: it is a record of the
  notes store, and in a database in key order the only record of that id. With an id that is
  not listed the database stays as it is. Every tag written is non-empty and trimmed:
  \<open>trim\<close> leaves it as it is, and it neither starts nor ends with white space.
\<close>

theorem handleTagChange_normalized:
  "\<exists>st'. handleTagChange tgs noteId st = Inr st' \<and>
     (if noteId = None \<or> noteId = Some []
      then tags (newNote st') = normalizeTags tgs \<and> notes st' = notes st \<and> db st' = db st
      else (\<forall>n \<in> set (notes st'). Some (id_n n) = noteId \<longrightarrow> tags n = normalizeTags tgs) \<and>
           (find (\<lambda>n. Some (id_n n) = noteId) (notes st) = None \<longrightarrow> db st' = db st) \<and>
           (\<forall>m. find (\<lambda>n. Some (id_n n) = noteId) (notes st) = Some m \<longrightarrow>
              m\<lparr>tags := normalizeTags tgs\<rparr> \<in> set (notes_store (db st')) \<and>
              (valid_db (db st) \<longrightarrow>
                 (\<forall>r \<in> set (notes_store (db st')).
                    Some (id_n r) = noteId \<longrightarrow> r = m\<lparr>tags := normalizeTags tgs\<rparr>)))) \<and>
     normalizeTags tgs = filter (\<lambda>t. t \<noteq> []) (map trim tgs) \<and>
     (\<forall>t \<in> set (normalizeTags tgs).
        t \<noteq> [] \<and> trim t = t \<and> \<not> is_whitespace (hd t) \<and> \<not> is_whitespace (last t))"
proof -
  have elems: "\<forall>t \<in> set (normalizeTags tgs).
        t \<noteq> [] \<and> trim t = t \<and> \<not> is_whitespace (hd t) \<and> \<not> is_whitespace (last t)"
    using normalizeTags_elem by blast
  from handleTagChange_saves [of tgs noteId st] obtain st' where
    "handleTagChange tgs noteId st = Inr st' \<and>
     (if noteId = None \<or> noteId = Some []
      then tags (newNote st') = normalizeTags tgs \<and> notes st' = notes st \<and> db st' = db st
      else (\<forall>n \<in> set (notes st'). Some (id_n n) = noteId \<longrightarrow> tags n = normalizeTags tgs) \<and>
           (find (\<lambda>n. Some (id_n n) = noteId) (notes st) = None \<longrightarrow> db st' = db st) \<and>
           (\<forall>m. find (\<lambda>n. Some (id_n n) = noteId) (notes st) = Some m \<longrightarrow>
              m\<lparr>tags := normalizeTags tgs\<rparr> \<in> set (notes_store (db st')) \<and>
              (valid_db (db st) \<longrightarrow>
                 (\<forall>r \<in> set (notes_store (db st')).
                    Some (id_n r) = noteId \<longrightarrow> r = m\<lparr>tags := normalizeTags tgs\<rparr>))))"
    by (rule exE)
  with normalizeTags_alt [of tgs] elems show ?thesis
    by (intro exI [of _ st'] conjI) (erule conjunct1, erule conjunct2, assumption+)
qed

theorem handleTagChange_normalized_witness:
  "normalizeTags ['' work '', [CHR 0xA0, CHR '' ''], ''idea''] = [''work'', ''idea''] \<and>
   valid_db (db (firstStart 0)) \<and>
   find (\<lambda>n. Some (id_n n) = Some ''1'') (notes (firstStart 0)) = Some (welcomeNote1 0) \<and>
   (\<exists>st'. handleTagChange ['' work '', [CHR 0xA0, CHR '' ''], ''idea''] (Some ''1'') (firstStart 0)
        = Inr st' \<and>
      list_all (\<lambda>n. Some (id_n n) = Some ''1'' \<longrightarrow> tags n = [''work'', ''idea'']) (notes st') \<and>
      list_all (\<lambda>r. Some (id_n r) = Some ''1'' \<longrightarrow> tags r = [''work'', ''idea''])
        (notes_store (db st')))"
proof -
  let ?tgs = "['' work '', [CHR 0xA0, CHR '' ''], ''idea'']"
  have n: "normalizeTags ?tgs = [''work'', ''idea'']"
    by (simp add: normalizeTags_def trim_def is_whitespace_def)
  have c: "\<not> (Some ''1'' = None \<or> Some ''1'' = Some [])"
    by simp
  have v: "valid_db (db (firstStart 0))"
    by code_simp
  have f: "find (\<lambda>n. Some (id_n n) = Some ''1'') (notes (firstStart 0)) = Some (welcomeNote1 0)"
    by (simp add: firstStart_def welcomeNotes_def welcomeNote1_def)
  from handleTagChange_normalized [of ?tgs "Some ''1''" "firstStart 0"]
  obtain st' where r: "handleTagChange ?tgs (Some ''1'') (firstStart 0) = Inr st'"
    and w: "if Some ''1'' = None \<or> Some ''1'' = Some []
      then tags (newNote st') = normalizeTags ?tgs \<and> notes st' = notes (firstStart 0) \<and>
           db st' = db (firstStart 0)
      else (\<forall>n \<in> set (notes st'). Some (id_n n) = Some ''1'' \<longrightarrow> tags n = normalizeTags ?tgs) \<and>
           (find (\<lambda>n. Some (id_n n) = Some ''1'') (notes (firstStart 0)) = None \<longrightarrow>
              db st' = db (firstStart 0)) \<and>
           (\<forall>m. find (\<lambda>n. Some (id_n n) = Some ''1'') (notes (firstStart 0)) = Some m \<longrightarrow>
              m\<lparr>tags := normalizeTags ?tgs\<rparr> \<in> set (notes_store (db st')) \<and>
              (valid_db (db (firstStart 0)) \<longrightarrow>
                 (\<forall>r \<in> set (notes_store (db st')).
                    Some (id_n r) = Some ''1'' \<longrightarrow> r = m\<lparr>tags := normalizeTags ?tgs\<rparr>)))"
    by blast
  from w have a: "\<forall>n \<in> set (notes st'). Some (id_n n) = Some ''1'' \<longrightarrow> tags n = [''work'', ''idea'']"
    unfolding n if_not_P [OF c] by (rule conjunct1)
  from w have "\<forall>m. find (\<lambda>n. Some (id_n n) = Some ''1'') (notes (firstStart 0)) = Some m \<longrightarrow>
              m\<lparr>tags := [''work'', ''idea'']\<rparr> \<in> set (notes_store (db st')) \<and>
              (valid_db (db (firstStart 0)) \<longrightarrow>
                 (\<forall>r \<in> set (notes_store (db st')).
                    Some (id_n r) = Some ''1'' \<longrightarrow> r = m\<lparr>tags := [''work'', ''idea'']\<rparr>))"
    unfolding n if_not_P [OF c] by (elim conjE)
  with f v have "\<forall>r \<in> set (notes_store (db st')).
      Some (id_n r) = Some ''1'' \<longrightarrow> r = (welcomeNote1 0)\<lparr>tags := [''work'', ''idea'']\<rparr>"
    by blast
  then have b: "\<forall>r \<in> set (notes_store (db st')).
      Some (id_n r) = Some ''1'' \<longrightarrow> tags r = [''work'', ''idea'']"
    by auto
  show ?thesis
    using n v f r a b by (simp only: list_all_iff) blast
qed


section \<open>Deleting a category, adding a note\<close>

lemma os_delete_subset: "set (os_delete key k xs) \<subseteq> set xs"
  by (induction xs) auto

text \<open>
  Claim C8. \<open>deleteCategory\<close> returns; no category of the given name is left in the
  categories list, whose other entries stay, nor (the store being in key order) in the
  categories store; every note of that category differs from what it was in the category
  alone, which is now \<open>Uncategorized\<close>, and every other note is as it was; nothing is added
  to the categories list or to the categories store, so neither gains an \<open>Uncategorized\<close>
  entry. The notes store is not written.
\<close>

theorem deleteCategory_frame:
  "\<exists>st'. deleteCategory c st = Inr st' \<and>
     categories st' = filter (\<lambda>cat. name cat \<noteq> c) (categories st) \<and>
     (\<forall>cat \<in> set (categories st'). name cat \<noteq> c) \<and>
     set (categories st') \<subseteq> set (categories st) \<and>
     (valid_db (db st) \<longrightarrow>
        stored ''categories'' (db st') =
          filter (\<lambda>x. entity_key ''categories'' x \<noteq> Some c) (stored ''categories'' (db st))) \<and>
     set (categories_store (db st')) \<subseteq> set (categories_store (db st)) \<and>
     notes_store (db st') = notes_store (db st) \<and>
     length (notes st') = length (notes st) \<and>
     (\<forall>i < length (notes st).
        notes st' ! i = (if category (notes st ! i) = c
                         then (notes st ! i)\<lparr>category := ''Uncategorized''\<rparr>
                         else notes st ! i))"
proof -
  let ?st' = "st\<lparr>db := (db st)\<lparr>categories_store := os_delete name c (categories_store (db st))\<rparr>,
             categories := filter (\<lambda>cat. name cat \<noteq> c) (categories st),
             notes := map (\<lambda>note. if category note = c
                                    then note\<lparr>category := ''Uncategorized''\<rparr> else note)
                        (notes st),
             toasts := toasts st @ [ToastSuccess ''Category deleted successfully!'']\<rparr>"
  have r: "deleteCategory c st = Inr ?st'"
    by (rule deleteCategory_done)
  have s: "stored ''categories'' (db ?st') =
          filter (\<lambda>x. entity_key ''categories'' x \<noteq> Some c) (stored ''categories'' (db st))"
    if "valid_db (db st)"
  proof -
    have "deleteFromIndexedDB ''categories'' c (db st) = Inr (db ?st')"
      by (simp add: delete_category_key)
    from delete_effect(2) [OF that this] show ?thesis .
  qed
  have sub: "set (categories_store (db ?st')) \<subseteq> set (categories_store (db st))"
    using os_delete_subset [of name c "categories_store (db st)"] by simp
  show ?thesis
  proof (intro exI [of _ ?st'] conjI impI)
    show "deleteCategory c st = Inr ?st'" by (rule r)
    show "stored ''categories'' (db ?st') =
          filter (\<lambda>x. entity_key ''categories'' x \<noteq> Some c) (stored ''categories'' (db st))"
      if "valid_db (db st)" by (rule s [OF that])
    show "set (categories_store (db ?st')) \<subseteq> set (categories_store (db st))" by (rule sub)
  qed simp_all
qed

theorem deleteCategory_frame_witness:
  "valid_db (db (firstStart 0)) \<and> (1::nat) < length (notes (firstStart 0)) \<and>
   category (notes (firstStart 0) ! 1) = ''To-Do'' \<and>
   (\<exists>st'. deleteCategory ''To-Do'' (firstStart 0) = Inr st' \<and>
      map name (categories st') = [''Work'', ''Personal'', ''Ideas''] \<and>
      notes st' ! 1 = (welcomeNote2 0)\<lparr>category := ''Uncategorized''\<rparr>)"
proof -
  have v: "valid_db (db (firstStart 0))"
    by code_simp
  have l: "(1::nat) < length (notes (firstStart 0))"
    by (simp add: firstStart_def welcomeNotes_def)
  have n: "notes (firstStart 0) ! 1 = welcomeNote2 0"
    by (simp add: firstStart_def welcomeNotes_def)
  have c: "category (welcomeNote2 0) = ''To-Do''"
    by (simp add: welcomeNote2_def)
  have f: "map name (filter (\<lambda>cat. name cat \<noteq> ''To-Do'') (categories (firstStart 0)))
      = [''Work'', ''Personal'', ''Ideas'']"
    by (simp add: firstStart_def initialCategories_def)
  from deleteCategory_frame [of "''To-Do''" "firstStart 0"] obtain st' where
    r: "deleteCategory ''To-Do'' (firstStart 0) = Inr st'"
    and cs: "categories st' = filter (\<lambda>cat. name cat \<noteq> ''To-Do'') (categories (firstStart 0))"
    and ns: "\<forall>i < length (notes (firstStart 0)).
        notes st' ! i = (if category (notes (firstStart 0) ! i) = ''To-Do''
                         then (notes (firstStart 0) ! i)\<lparr>category := ''Uncategorized''\<rparr>
                         else notes (firstStart 0) ! i)"
    by blast
  have "notes st' ! 1 = (welcomeNote2 0)\<lparr>category := ''Uncategorized''\<rparr>"
    using ns l n c by simp
  moreover have "map name (categories st') = [''Work'', ''Personal'', ''Ideas'']"
    unfolding cs by (rule f)
  ultimately show ?thesis using v l n c r by simp
qed

text \<open>
  Claim C5, as amended. \<open>addNote\<close> adds a note if and only if the draft's title, content and
  category are all non-empty. With a required field empty it shows one error toast and
  changes nothing else. Otherwise it appends exactly one note to the list and saves that
  note; the note is neither pinned nor archived, its two dates are equal, and it has the
  draft's title, content, category and tags. Its colour is \<open>#CCCCCC\<close> when no category has
  the draft's category as name, and otherwise the colour of the first such category, unless
  that colour is empty, when it is \<open>#CCCCCC\<close> as well.
\<close>

theorem addNote_required_fields:
  "(title (newNote st) = [] \<or> content (newNote st) = [] \<or> category (newNote st) = [] \<longrightarrow>
      addNote now dateNow st =
        Inr (st\<lparr>toasts := toasts st @ [ToastError ''Please fill in all required fields'']\<rparr>)) \<and>
   (title (newNote st) \<noteq> [] \<and> content (newNote st) \<noteq> [] \<and> category (newNote st) \<noteq> [] \<longrightarrow>
      (\<exists>st' n. addNote now dateNow st = Inr st' \<and>
         notes st' = notes st @ [n] \<and>
         notes_store (db st') = os_put id_n n (notes_store (db st)) \<and>
         \<not> isPinned n \<and> \<not> isArchived n \<and> createdAt n = updatedAt n \<and>
         title n = title (newNote st) \<and> content n = content (newNote st) \<and>
         category n = category (newNote st) \<and> tags n = tags (newNote st) \<and>
         ((\<forall>cat \<in> set (categories st). name cat \<noteq> category (newNote st)) \<longrightarrow>
            color n = ''#CCCCCC'') \<and>
         (\<forall>cat. find (\<lambda>cat. name cat = category (newNote st)) (categories st) = Some cat \<longrightarrow>
            color n = (if cat_color cat = [] then ''#CCCCCC'' else cat_color cat))))"
proof (intro conjI impI)
  assume "title (newNote st) = [] \<or> content (newNote st) = [] \<or> category (newNote st) = []"
  then show "addNote now dateNow st =
        Inr (st\<lparr>toasts := toasts st @ [ToastError ''Please fill in all required fields'']\<rparr>)"
    by (rule addNote_refused)
next
  assume a: "title (newNote st) \<noteq> [] \<and> content (newNote st) \<noteq> [] \<and> category (newNote st) \<noteq> []"
  let ?c = "category (newNote st)"
  from a addNote_done [of st now dateNow] obtain n where
    r: "addNote now dateNow st =
     Inr (st\<lparr>db := (db st)\<lparr>notes_store := os_put id_n n (notes_store (db st))\<rparr>,
             notes := notes st @ [n],
             newNote := emptyNewNote,
             isAddingNote := False,
             toasts := toasts st @ [ToastSuccess ''Note added successfully!'']\<rparr>)"
    and n: "n = \<lparr>title = title (newNote st), content = content (newNote st),
          category = category (newNote st),
          color = categoryColor (categories st) (category (newNote st)),
          image_n = image_n (newNote st), tags = tags (newNote st),
          id_n = toString dateNow, createdAt = now, updatedAt = now,
          isPinned = False, isArchived = False\<rparr>"
    by blast
  have col: "color n = categoryColor (categories st) ?c"
    by (simp add: n)
  have c1: "color n = ''#CCCCCC''" if "\<forall>cat \<in> set (categories st). name cat \<noteq> ?c"
  proof -
    have "find (\<lambda>cat. name cat = ?c) (categories st) = None"
      using that by (simp add: find_None_iff)
    then show ?thesis by (simp add: col categoryColor_def)
  qed
  have c2: "color n = (if cat_color cat = [] then ''#CCCCCC'' else cat_color cat)"
    if "find (\<lambda>cat. name cat = ?c) (categories st) = Some cat" for cat
    using that by (simp add: col categoryColor_def)
  show "\<exists>st' n. addNote now dateNow st = Inr st' \<and>
         notes st' = notes st @ [n] \<and>
         notes_store (db st') = os_put id_n n (notes_store (db st)) \<and>
         \<not> isPinned n \<and> \<not> isArchived n \<and> createdAt n = updatedAt n \<and>
         title n = title (newNote st) \<and> content n = content (newNote st) \<and>
         category n = category (newNote st) \<and> tags n = tags (newNote st) \<and>
         ((\<forall>cat \<in> set (categories st). name cat \<noteq> category (newNote st)) \<longrightarrow>
            color n = ''#CCCCCC'') \<and>
         (\<forall>cat. find (\<lambda>cat. name cat = category (newNote st)) (categories st) = Some cat \<longrightarrow>
            color n = (if cat_color cat = [] then ''#CCCCCC'' else cat_color cat))"
  proof (intro exI conjI impI allI)
    show "addNote now dateNow st = Inr (st\<lparr>db := (db st)\<lparr>notes_store := os_put id_n n (notes_store (db st))\<rparr>,
             notes := notes st @ [n],
             newNote := emptyNewNote,
             isAddingNote := False,
             toasts := toasts st @ [ToastSuccess ''Note added successfully!'']\<rparr>)"
      by (rule r)
    show "color n = ''#CCCCCC''" if "\<forall>cat \<in> set (categories st). name cat \<noteq> ?c"
      by (rule c1 [OF that])
    show "color n = (if cat_color cat = [] then ''#CCCCCC'' else cat_color cat)"
      if "find (\<lambda>cat. name cat = ?c) (categories st) = Some cat" for cat
      by (rule c2 [OF that])
  qed (simp_all add: n)
qed

theorem addNote_required_fields_witness:
  "title (newNote colourlessCategoryState) \<noteq> [] \<and>
   content (newNote colourlessCategoryState) \<noteq> [] \<and>
   category (newNote colourlessCategoryState) \<noteq> [] \<and>
   (\<exists>st' n. addNote 5 6 colourlessCategoryState = Inr st' \<and> notes st' = [n] \<and>
      \<not> isPinned n \<and> createdAt n = updatedAt n \<and> color n = ''#CCCCCC'')"
proof -
  let ?S = colourlessCategoryState
  have a: "title (newNote ?S) \<noteq> [] \<and> content (newNote ?S) \<noteq> [] \<and> category (newNote ?S) \<noteq> []"
    by (simp add: colourlessCategoryState_def)
  have f: "find (\<lambda>cat. name cat = category (newNote ?S)) (categories ?S)
      = Some \<lparr>name = ''Work'', cat_color = []\<rparr>"
    by (simp add: colourlessCategoryState_def)
  have e: "notes ?S = []"
    by (simp add: colourlessCategoryState_def)
  from addNote_required_fields [of ?S 5 6] a obtain st' n where
    "addNote 5 6 ?S = Inr st'" "notes st' = notes ?S @ [n]" "\<not> isPinned n"
    "createdAt n = updatedAt n"
    "\<forall>cat. find (\<lambda>cat. name cat = category (newNote ?S)) (categories ?S) = Some cat \<longrightarrow>
            color n = (if cat_color cat = [] then ''#CCCCCC'' else cat_color cat)"
    by blast
  then have "addNote 5 6 ?S = Inr st' \<and> notes st' = [n] \<and>
      \<not> isPinned n \<and> createdAt n = updatedAt n \<and> color n = ''#CCCCCC''"
    using f e by simp
  then show ?thesis using a by blast
qed

text \<open>
  The claim as stated fails where the category of the draft's name has an empty colour:
  the new note gets \<open>#CCCCCC\<close>, not the colour of the matching category.
\<close>

theorem addNote_colour_counterexample:
  "map name (categories colourlessCategoryState) = [category (newNote colourlessCategoryState)] \<and>
   map cat_color (categories colourlessCategoryState) = [[]] \<and>
   \<not> isl (addNote 5 6 colourlessCategoryState) \<and>
   map color (notes (projr (addNote 5 6 colourlessCategoryState))) = [''#CCCCCC'']"
  by (simp add: colourlessCategoryState_def addNote_def Let_def save_note categoryColor_def)


section \<open>The pin limit\<close>

lemma pinnedCount_same:
  "(\<forall>n \<in> set ns. isPinned (g n) = isPinned n) \<Longrightarrow> pinnedCount (map g ns) = pinnedCount ns"
  unfolding pinnedCount_def by (induction ns) auto

lemma pinnedCount_filter: "pinnedCount (filter P ns) \<le> pinnedCount ns"
  unfolding pinnedCount_def by (induction ns) auto

lemma pinnedCount_pinned_replaced:
  "(\<forall>n \<in> set ns. id_n n = k \<longrightarrow> isPinned n) \<Longrightarrow>
   pinnedCount (map (\<lambda>n. if id_n n = k then f n else n) ns) \<le> pinnedCount ns"
  unfolding pinnedCount_def by (induction ns) auto

lemma pinnedCount_one_replaced:
  "distinct (map id_n ns) \<Longrightarrow>
   pinnedCount (map (\<lambda>n. if id_n n = k then f n else n) ns) \<le> Suc (pinnedCount ns)"
proof (induction ns)
  case Nil
  then show ?case by (simp add: pinnedCount_def)
next
  case (Cons x xs)
  show ?case
  proof (cases "id_n x = k")
    case True
    have "k \<notin> id_n ` set xs" using True Cons.prems by simp
    then have "\<forall>n \<in> set xs. id_n n \<noteq> k" by (blast intro: rev_image_eqI)
    then have "map (\<lambda>n. if id_n n = k then f n else n) xs = xs"
      by (rule replaceNote_absent)
    then show ?thesis using True by (simp add: pinnedCount_def)
  next
    case False
    then show ?thesis using Cons by (simp add: pinnedCount_def)
  qed
qed

lemma addNote_pins:
  "pinnedCount (notes st) \<le> 3 \<Longrightarrow>
   \<exists>st'. addNote now dateNow st = Inr st' \<and> pinnedCount (notes st') \<le> 3"
proof (cases "title (newNote st) \<noteq> [] \<and> content (newNote st) \<noteq> [] \<and> category (newNote st) \<noteq> []")
  case True
  assume "pinnedCount (notes st) \<le> 3"
  moreover from True addNote_done [of st now dateNow] obtain n where
    "addNote now dateNow st =
     Inr (st\<lparr>db := (db st)\<lparr>notes_store := os_put id_n n (notes_store (db st))\<rparr>,
             notes := notes st @ [n],
             newNote := emptyNewNote,
             isAddingNote := False,
             toasts := toasts st @ [ToastSuccess ''Note added successfully!'']\<rparr>)"
    "\<not> isPinned n"
    by auto
  ultimately show ?thesis by (simp add: pinnedCount_def)
next
  case False
  assume "pinnedCount (notes st) \<le> 3"
  moreover have "title (newNote st) = [] \<or> content (newNote st) = [] \<or> category (newNote st) = []"
    using False by blast
  ultimately show ?thesis by (simp add: addNote_refused)
qed

lemma deleteNote_pins:
  "pinnedCount (notes st) \<le> 3 \<Longrightarrow>
   \<exists>st'. deleteNote k st = Inr st' \<and> pinnedCount (notes st') \<le> 3"
  using pinnedCount_filter [of "\<lambda>note. id_n note \<noteq> k" "notes st"]
  by (simp add: deleteNote_done)

lemma togglePinNote_pins:
  assumes "pinnedCount (notes st) \<le> 3" "distinct (map id_n (notes st))"
  shows "\<exists>st'. togglePinNote k st = Inr st' \<and> pinnedCount (notes st') \<le> 3"
proof (cases "find (\<lambda>n. id_n n = k) (notes st)")
  case None
  then show ?thesis using assms(1) by (simp add: togglePinNote_absent)
next
  case (Some m)
  let ?f = "\<lambda>n. n\<lparr>isPinned := \<not> isPinned n\<rparr>"
  have rep: "replaceNote k (?f m) (notes st) = map (\<lambda>n. if id_n n = k then ?f n else n) (notes st)"
    by (rule replaceNote_distinct [OF assms(2) Some])
  have m: "m \<in> set (notes st)" "id_n m = k"
    using find_id_Some [OF Some] by simp_all
  have only: "n = m" if "n \<in> set (notes st)" "id_n n = k" for n
    using assms(2) that m by (auto simp: distinct_map dest: inj_onD)
  show ?thesis
  proof (cases "isPinned m")
    case True
    then have "\<forall>n \<in> set (notes st). id_n n = k \<longrightarrow> isPinned n"
      using only by blast
    then have "pinnedCount (replaceNote k (?f m) (notes st)) \<le> pinnedCount (notes st)"
      unfolding rep by (rule pinnedCount_pinned_replaced)
    then show ?thesis
      using assms(1) True by (simp add: togglePinNote_done [OF Some])
  next
    case False
    show ?thesis
    proof (cases "3 \<le> pinnedCount (notes st)")
      case True
      then show ?thesis
        using assms(1) by (simp add: togglePinNote_refused [OF Some False])
    next
      case few: False
      have "pinnedCount (replaceNote k (?f m) (notes st)) \<le> Suc (pinnedCount (notes st))"
        unfolding rep by (rule pinnedCount_one_replaced [OF assms(2)])
      then show ?thesis
        using few by (simp add: togglePinNote_done [OF Some])
    qed
  qed
qed

lemma replaceNote_same_pin:
  assumes "distinct (map id_n ns)" "find (\<lambda>n. id_n n = k) ns = Some m"
    "isPinned u = isPinned m"
  shows "pinnedCount (replaceNote k u ns) = pinnedCount ns"
proof -
  have m: "m \<in> set ns" "id_n m = k"
    using find_id_Some [OF assms(2)] by simp_all
  have "n = m" if "n \<in> set ns" "id_n n = k" for n
    using assms(1) that m by (auto simp: distinct_map dest: inj_onD)
  then show ?thesis
    unfolding replaceNote_def using assms(3) by (intro pinnedCount_same) auto
qed

lemma toggleArchiveNote_pins:
  assumes "pinnedCount (notes st) \<le> 3" "distinct (map id_n (notes st))"
  shows "\<exists>st'. toggleArchiveNote k st = Inr st' \<and> pinnedCount (notes st') \<le> 3"
proof (cases "find (\<lambda>n. id_n n = k) (notes st)")
  case None
  then show ?thesis using assms(1) by (simp add: toggleArchiveNote_absent)
next
  case (Some m)
  have "pinnedCount (replaceNote k (m\<lparr>isArchived := \<not> isArchived m\<rparr>) (notes st))
      = pinnedCount (notes st)"
    by (rule replaceNote_same_pin [OF assms(2) Some]) simp
  then show ?thesis using assms(1) by (simp add: toggleArchiveNote_done [OF Some])
qed

lemma handleTagChange_pins:
  assumes "pinnedCount (notes st) \<le> 3" "distinct (map id_n (notes st))"
  shows "\<exists>st'. handleTagChange tgs noteId st = Inr st' \<and> pinnedCount (notes st') \<le> 3"
proof (cases "noteId = None \<or> noteId = Some []")
  case True
  show ?thesis
    unfolding handleTagChange_draft [OF True] using assms(1) by simp
next
  case False
  then obtain k where k: "noteId = Some k" "k \<noteq> []" by auto
  show ?thesis
  proof (cases "find (\<lambda>n. id_n n = k) (notes st)")
    case None
    show ?thesis
      unfolding k(1) handleTagChange_absent [OF k(2) None] using assms(1) by simp
  next
    case (Some m)
    have "pinnedCount (replaceNote k (m\<lparr>tags := normalizeTags tgs\<rparr>) (notes st))
        = pinnedCount (notes st)"
      by (rule replaceNote_same_pin [OF assms(2) Some]) simp
    then show ?thesis
      unfolding k(1) handleTagChange_done [OF k(2) Some] using assms(1) by simp
  qed
qed

lemma updateNote_pins:
  assumes "pinnedCount (notes st) \<le> 3"
    and "\<forall>e. editingNote st = Some e \<longrightarrow>
           (\<forall>n \<in> set (notes st). id_n n = id_n e \<longrightarrow> isPinned n = isPinned e)"
  shows "\<exists>st'. updateNote now st = Inr st' \<and> pinnedCount (notes st') \<le> 3"
proof (cases "editingNote st")
  case None
  then show ?thesis using assms(1) by (simp add: updateNote_idle)
next
  case (Some e)
  have "pinnedCount (replaceNote (id_n e) (e\<lparr>updatedAt := now\<rparr>) (notes st))
      = pinnedCount (notes st)"
    unfolding replaceNote_def using assms(2) Some by (intro pinnedCount_same) auto
  then show ?thesis using assms(1) by (simp add: updateNote_done [OF Some])
qed

lemma togglePinNote_at_limit:
  assumes "find (\<lambda>n. id_n n = k) (notes st) = Some m" "\<not> isPinned m"
    "3 \<le> pinnedCount (notes st)"
  shows "\<exists>st'. togglePinNote k st = Inr st' \<and> notes st' = notes st \<and> db st' = db st"
  by (simp add: togglePinNote_refused [OF assms])

text \<open>
  The pin limit under the operations on listed notes. In a state whose notes have pairwise
  different ids and of which at most three are pinned, each of \<open>addNote\<close>, \<open>deleteNote\<close>, \<open>togglePinNote\<close>,
  \<open>toggleArchiveNote\<close> and \<open>handleTagChange\<close> returns a state with at most three pinned
  notes, and so does \<open>updateNote\<close> when the note being edited has the pin flag of the listed
  notes of its id. \<open>togglePinNote\<close> on an unpinned note, with three or more notes pinned,
  leaves the notes and the database as they are.
\<close>

theorem pin_limit_preserved:
  assumes "pinnedCount (notes st) \<le> 3" and "distinct (map id_n (notes st))"
  shows "(\<exists>st'. addNote now dateNow st = Inr st' \<and> pinnedCount (notes st') \<le> 3) \<and>
    (\<exists>st'. deleteNote k st = Inr st' \<and> pinnedCount (notes st') \<le> 3) \<and>
    (\<exists>st'. togglePinNote k st = Inr st' \<and> pinnedCount (notes st') \<le> 3) \<and>
    (\<exists>st'. toggleArchiveNote k st = Inr st' \<and> pinnedCount (notes st') \<le> 3) \<and>
    (\<exists>st'. handleTagChange tgs noteId st = Inr st' \<and> pinnedCount (notes st') \<le> 3) \<and>
    ((\<forall>e. editingNote st = Some e \<longrightarrow>
         (\<forall>n \<in> set (notes st). id_n n = id_n e \<longrightarrow> isPinned n = isPinned e)) \<longrightarrow>
       (\<exists>st'. updateNote now st = Inr st' \<and> pinnedCount (notes st') \<le> 3)) \<and>
    (\<forall>m. find (\<lambda>n. id_n n = k) (notes st) = Some m \<and> \<not> isPinned m \<and>
         3 \<le> pinnedCount (notes st) \<longrightarrow>
       (\<exists>st'. togglePinNote k st = Inr st' \<and> notes st' = notes st \<and> db st' = db st))"
proof (intro conjI impI allI)
  show "\<exists>st'. addNote now dateNow st = Inr st' \<and> pinnedCount (notes st') \<le> 3"
    by (rule addNote_pins [OF assms(1)])
  show "\<exists>st'. deleteNote k st = Inr st' \<and> pinnedCount (notes st') \<le> 3"
    by (rule deleteNote_pins [OF assms(1)])
  show "\<exists>st'. togglePinNote k st = Inr st' \<and> pinnedCount (notes st') \<le> 3"
    by (rule togglePinNote_pins [OF assms])
  show "\<exists>st'. toggleArchiveNote k st = Inr st' \<and> pinnedCount (notes st') \<le> 3"
    by (rule toggleArchiveNote_pins [OF assms])
  show "\<exists>st'. handleTagChange tgs noteId st = Inr st' \<and> pinnedCount (notes st') \<le> 3"
    by (rule handleTagChange_pins [OF assms])
  show "\<exists>st'. updateNote now st = Inr st' \<and> pinnedCount (notes st') \<le> 3"
    if "\<forall>e. editingNote st = Some e \<longrightarrow>
         (\<forall>n \<in> set (notes st). id_n n = id_n e \<longrightarrow> isPinned n = isPinned e)"
    by (rule updateNote_pins [OF assms(1) that])
  show "\<exists>st'. togglePinNote k st = Inr st' \<and> notes st' = notes st \<and> db st' = db st"
    if "find (\<lambda>n. id_n n = k) (notes st) = Some m \<and> \<not> isPinned m \<and>
         3 \<le> pinnedCount (notes st)" for m
    using that by (blast intro: togglePinNote_at_limit)
qed

theorem pin_limit_preserved_witness:
  "pinnedCount (notes threePinnedState) \<le> 3 \<and>
   distinct (map id_n (notes threePinnedState)) \<and>
   find (\<lambda>n. id_n n = ''4'') (notes threePinnedState) = Some ((welcomeNote1 0)\<lparr>id_n := ''4''\<rparr>) \<and>
   \<not> isPinned ((welcomeNote1 0)\<lparr>id_n := ''4''\<rparr>) \<and>
   3 \<le> pinnedCount (notes threePinnedState) \<and>
   (\<exists>st'. togglePinNote ''4'' threePinnedState = Inr st' \<and>
      notes st' = notes threePinnedState \<and> db st' = db threePinnedState) \<and>
   (\<exists>st'. toggleArchiveNote ''4'' threePinnedState = Inr st' \<and> pinnedCount (notes st') \<le> 3)"
proof -
  let ?S = threePinnedState
  have defs: "notes ?S = threePinnedNotes"
    by (simp add: threePinnedState_def)
  have p: "pinnedCount (notes ?S) = 3"
    by (simp add: defs threePinnedNotes_def pinnedCount_def welcomeNote1_def welcomeNote2_def
        welcomeNote3_def)
  have d: "distinct (map id_n (notes ?S))"
    by (simp add: defs threePinnedNotes_def welcomeNote1_def welcomeNote2_def welcomeNote3_def)
  have f: "find (\<lambda>n. id_n n = ''4'') (notes ?S) = Some ((welcomeNote1 0)\<lparr>id_n := ''4''\<rparr>)"
    by (simp add: defs threePinnedNotes_def welcomeNote1_def welcomeNote2_def welcomeNote3_def)
  have u: "\<not> isPinned ((welcomeNote1 0)\<lparr>id_n := ''4''\<rparr>)"
    by (simp add: welcomeNote1_def)
  have le: "pinnedCount (notes ?S) \<le> 3" and ge: "3 \<le> pinnedCount (notes ?S)"
    using p by simp_all
  note inst = pin_limit_preserved [OF le d, of 0 0 "''4''" "[]" None]
  have a: "\<exists>st'. togglePinNote ''4'' ?S = Inr st' \<and> notes st' = notes ?S \<and> db st' = db ?S"
    using inst f u ge by blast
  have b: "\<exists>st'. toggleArchiveNote ''4'' ?S = Inr st' \<and> pinnedCount (notes st') \<le> 3"
    using inst by blast
  show ?thesis using le d f u ge a b by blast
qed

text \<open>
  Claim C1. Every operation on the notes collection is to keep at most three notes pinned,
  as \<open>togglePinNote\<close> does by refusing a fourth pin. \<open>importNotes\<close> does not: after a
  first start, where no note is pinned, the import of a backup file with four pinned notes
  leaves four pinned notes in the notes list and in the notes store.
\<close>

theorem importNotes_exceeds_pin_limit:
  "pinnedCount (notes (firstStart 0)) = 0 \<and>
   pinnedCount (notes (importNotes msNewDate (Parsed fourPinnedBackup) (firstStart 0))) = 4 \<and>
   pinnedCount (notes_store (db (importNotes msNewDate (Parsed fourPinnedBackup)
     (firstStart 0)))) = 4"
  by (simp add: firstStart_def welcomeNotes_def welcomeNote1_def welcomeNote2_def
      welcomeNote3_def initialCategories_def pinnedCount_def importNotes_def
      fourPinnedBackup_def pinnedBackupNote_def withDates_def save_note save_category
      getAllFromIndexedDB_def os_getAll_def asNotes_def asCategories_def)

text \<open>
  The ids have to differ: where two listed notes share an id, a toggle replaces both by the
  toggled copy of the first, and two pinned notes become four.
\<close>

lemma togglePinNote_shared_id_example:
  "pinnedCount [welcomeNote1 0, welcomeNote1 0, (welcomeNote2 0)\<lparr>isPinned := True\<rparr>,
      (welcomeNote3 0)\<lparr>isPinned := True\<rparr>] = 2 \<and>
   \<not> isl (togglePinNote ''1'' ((firstStart 0)\<lparr>notes :=
      [welcomeNote1 0, welcomeNote1 0, (welcomeNote2 0)\<lparr>isPinned := True\<rparr>,
       (welcomeNote3 0)\<lparr>isPinned := True\<rparr>]\<rparr>)) \<and>
   pinnedCount (notes (projr (togglePinNote ''1'' ((firstStart 0)\<lparr>notes :=
      [welcomeNote1 0, welcomeNote1 0, (welcomeNote2 0)\<lparr>isPinned := True\<rparr>,
       (welcomeNote3 0)\<lparr>isPinned := True\<rparr>]\<rparr>)))) = 4"
  by (simp add: togglePinNote_def Let_def save_note replaceNote_def pinnedCount_def
      welcomeNote1_def welcomeNote2_def welcomeNote3_def)

text \<open>
  The pin flag of the note being edited has to be that of the listed note: \<open>updateNote\<close>
  writes the whole edited copy back, so a copy that is pinned, of a note that is not, makes
  a fourth pinned note.
\<close>

lemma updateNote_pin_flag_example:
  "pinnedCount (notes threePinnedState) = 3 \<and>
   \<not> isl (updateNote 9 (threePinnedState\<lparr>editingNote :=
      Some ((welcomeNote1 0)\<lparr>id_n := ''4'', isPinned := True\<rparr>)\<rparr>)) \<and>
   pinnedCount (notes (projr (updateNote 9 (threePinnedState\<lparr>editingNote :=
      Some ((welcomeNote1 0)\<lparr>id_n := ''4'', isPinned := True\<rparr>)\<rparr>)))) = 4"
  by (simp add: updateNote_def Let_def save_note replaceNote_def pinnedCount_def
      threePinnedState_def threePinnedNotes_def welcomeNote1_def welcomeNote2_def
      welcomeNote3_def)


section \<open>What the note operations leave alone\<close>


lemma put_keeps_others:
  "id_n u = k \<Longrightarrow>
   filter (\<lambda>r. id_n r \<noteq> k) (os_put id_n u xs) = filter (\<lambda>r. id_n r \<noteq> k) xs"
  using os_put_others [of id_n u xs] by simp

lemma togglePinNote_frame:
  assumes "distinct (map id_n (notes st))"
  shows "\<exists>st'. togglePinNote k st = Inr st' \<and>
      notes st' =
        (if (\<exists>m \<in> set (notes st). id_n m = k \<and> \<not> isPinned m) \<and> 3 \<le> pinnedCount (notes st)
         then notes st
         else map (\<lambda>n. if id_n n = k then n\<lparr>isPinned := \<not> isPinned n\<rparr> else n) (notes st)) \<and>
      filter (\<lambda>r. id_n r \<noteq> k) (notes_store (db st'))
        = filter (\<lambda>r. id_n r \<noteq> k) (notes_store (db st)) \<and>
      categories_store (db st') = categories_store (db st)"
proof (cases "find (\<lambda>n. id_n n = k) (notes st)")
  case None
  have no: "\<forall>n \<in> set (notes st). id_n n \<noteq> k"
    by (rule find_id_None [OF None])
  then have "map (\<lambda>n. if id_n n = k then n\<lparr>isPinned := \<not> isPinned n\<rparr> else n) (notes st) = notes st"
    by (rule replaceNote_absent)
  then show ?thesis
    unfolding togglePinNote_absent [OF None] using no by auto
next
  case (Some m)
  let ?f = "\<lambda>n. n\<lparr>isPinned := \<not> isPinned n\<rparr>"
  have rep: "replaceNote k (?f m) (notes st) = map (\<lambda>n. if id_n n = k then ?f n else n) (notes st)"
    by (rule replaceNote_distinct [OF assms Some])
  have m: "m \<in> set (notes st)" "id_n m = k"
    using find_id_Some [OF Some] by simp_all
  have only: "n = m" if "n \<in> set (notes st)" "id_n n = k" for n
    using assms that m by (auto simp: distinct_map dest: inj_onD)
  have ex: "(\<exists>n \<in> set (notes st). id_n n = k \<and> \<not> isPinned n) \<longleftrightarrow> \<not> isPinned m"
    using only m by blast
  show ?thesis
  proof (cases "\<not> isPinned m \<and> 3 \<le> pinnedCount (notes st)")
    case True
    then have r: "togglePinNote k st =
        Inr (st\<lparr>toasts := toasts st @ [ToastError ''You can only pin up to 3 notes'']\<rparr>)"
      by (simp add: togglePinNote_refused [OF Some])
    show ?thesis unfolding r ex using True by simp
  next
    case False
    then have "isPinned m \<or> pinnedCount (notes st) < 3" by auto
    note r = togglePinNote_done [OF Some this]
    have k: "id_n (?f m) = k" using m by simp
    show ?thesis unfolding r ex using False rep put_keeps_others [OF k] by auto
  qed
qed

lemma toggleArchiveNote_frame:
  assumes "distinct (map id_n (notes st))"
  shows "\<exists>st'. toggleArchiveNote k st = Inr st' \<and>
      notes st' = map (\<lambda>n. if id_n n = k then n\<lparr>isArchived := \<not> isArchived n\<rparr> else n) (notes st) \<and>
      filter (\<lambda>r. id_n r \<noteq> k) (notes_store (db st'))
        = filter (\<lambda>r. id_n r \<noteq> k) (notes_store (db st)) \<and>
      categories_store (db st') = categories_store (db st)"
proof (cases "find (\<lambda>n. id_n n = k) (notes st)")
  case None
  have "map (\<lambda>n. if id_n n = k then n\<lparr>isArchived := \<not> isArchived n\<rparr> else n) (notes st) = notes st"
    by (rule replaceNote_absent) (rule find_id_None [OF None])
  then show ?thesis
    unfolding toggleArchiveNote_absent [OF None] by simp
next
  case (Some m)
  let ?f = "\<lambda>n. n\<lparr>isArchived := \<not> isArchived n\<rparr>"
  have rep: "replaceNote k (?f m) (notes st) = map (\<lambda>n. if id_n n = k then ?f n else n) (notes st)"
    by (rule replaceNote_distinct [OF assms Some])
  have k: "id_n (?f m) = k" using find_id_Some [OF Some] by simp
  show ?thesis
    unfolding toggleArchiveNote_done [OF Some] using rep put_keeps_others [OF k] by simp
qed

lemma handleTagChange_frame:
  assumes "distinct (map id_n (notes st))"
  shows "\<exists>st'. handleTagChange tgs noteId st = Inr st' \<and>
      notes st' = map (\<lambda>n. if Some (id_n n) = noteId \<and> noteId \<noteq> Some []
                            then n\<lparr>tags := normalizeTags tgs\<rparr> else n) (notes st) \<and>
      (\<forall>k. noteId = Some k \<longrightarrow>
         filter (\<lambda>r. id_n r \<noteq> k) (notes_store (db st'))
           = filter (\<lambda>r. id_n r \<noteq> k) (notes_store (db st))) \<and>
      (noteId = None \<longrightarrow> db st' = db st) \<and>
      categories_store (db st') = categories_store (db st)"
proof (cases "noteId = None \<or> noteId = Some []")
  case True
  have "map (\<lambda>n. if Some (id_n n) = noteId \<and> noteId \<noteq> Some []
                  then n\<lparr>tags := normalizeTags tgs\<rparr> else n) (notes st) = notes st"
    using True by (intro map_idI) auto
  then show ?thesis
    unfolding handleTagChange_draft [OF True] by simp
next
  case False
  then obtain k where k: "noteId = Some k" "k \<noteq> []" by auto
  let ?f = "\<lambda>n. n\<lparr>tags := normalizeTags tgs\<rparr>"
  have shape: "(\<lambda>n. if Some (id_n n) = noteId \<and> noteId \<noteq> Some [] then ?f n else n)
      = (\<lambda>n. if id_n n = k then ?f n else n)"
    using k by auto
  show ?thesis
  proof (cases "find (\<lambda>n. id_n n = k) (notes st)")
    case None
    have "map (\<lambda>n. if id_n n = k then ?f n else n) (notes st) = notes st"
      by (rule replaceNote_absent) (rule find_id_None [OF None])
    then show ?thesis
      unfolding shape unfolding k(1) handleTagChange_absent [OF k(2) None] by simp
  next
    case (Some m)
    have rep: "replaceNote k (?f m) (notes st) = map (\<lambda>n. if id_n n = k then ?f n else n) (notes st)"
      by (rule replaceNote_distinct [OF assms Some])
    have i: "id_n (?f m) = k" using find_id_Some [OF Some] by simp
    show ?thesis
      unfolding shape unfolding k(1) handleTagChange_done [OF k(2) Some]
      using rep put_keeps_others [OF i] by simp
  qed
qed






section \<open>The filtered and sorted view\<close>












text \<open>
  An accented capital is matched by its lower-case form: the search for \<open>0xE9\<close> finds the
  title that ends in \<open>0xC9\<close>.
\<close>

lemma filteredNotes_accented_example:
  "filteredNotes codeUnitCompare [(welcomeNote1 0)\<lparr>title := ''CAF'' @ [CHR 0xC9]\<rparr>]
       ''All'' [CHR 0xE9] False SortUpdatedAt
     = [(welcomeNote1 0)\<lparr>title := ''CAF'' @ [CHR 0xC9]\<rparr>]"
  by code_simp











section \<open>Export and import of a backup\<close>

lemma asNotes_NoteData: "asNotes (map NoteData xs) = xs"
  unfolding asNotes_def by (induction xs) simp_all

lemma asCategories_CategoryData: "asCategories (map CategoryData cs) = cs"
  unfolding asCategories_def by (induction cs) simp_all

lemma withDates_id: "withDates (\<lambda>date. date) n = n"
  by (simp add: withDates_def)

lemma withDates_roundtrip:
  "newDate (toJSON (createdAt n)) = createdAt n \<Longrightarrow>
   newDate (toJSON (updatedAt n)) = updatedAt n \<Longrightarrow>
   withDates newDate (withDates toJSON n) = n"
  by (simp add: withDates_def)

lemma saveAll_notes:
  "saveAll ''notes'' (map (\<lambda>note. NoteData (f note)) xs) d
     = (None, d\<lparr>notes_store := fold (os_put id_n) (map f xs) (notes_store d)\<rparr>)"
  by (induction xs arbitrary: d) (simp_all add: save_note)

lemma saveAll_categories:
  "saveAll ''categories'' (map CategoryData cs) d
     = (None, d\<lparr>categories_store := fold (os_put name) cs (categories_store d)\<rparr>)"
  by (induction cs arbitrary: d) (simp_all add: save_category)

lemma put_stored_again:
  "valid_store key xs \<Longrightarrow> set rs \<subseteq> set xs \<Longrightarrow> fold (os_put key) rs xs = xs"
  by (induction rs) (simp_all add: os_put_absorb)

lemma exportNotes_done:
  "exportNotes toJSON st =
     Inr (\<lparr>notes_f = Some (map (withDates toJSON) (notes_store (db st))),
           categories_f = Some (categories_store (db st))\<rparr>,
          st\<lparr>toasts := toasts st @
               [ToastSuccess ''Notes and categories exported successfully!'']\<rparr>)"
  by (simp add: exportNotes_def getAllFromIndexedDB_def os_getAll_def asNotes_NoteData
      asCategories_CategoryData)

lemma importNotes_done:
  "importNotes newDate (Parsed \<lparr>notes_f = Some fs, categories_f = Some cs\<rparr>) st =
     (let d = (db st)\<lparr>notes_store := fold (os_put id_n) (map (withDates newDate) fs)
                                      (notes_store (db st)),
                      categories_store := fold (os_put name) cs (categories_store (db st))\<rparr>
      in st\<lparr>db := d,
            notes := notes_store d,
            categories := categories_store d,
            toasts := toasts st @ [ToastSuccess ''Notes and categories imported successfully!'']\<rparr>)"
proof -
  have i: "map (withDates (\<lambda>date. date)) xs = xs" for xs :: "'a Note_of list"
    by (induction xs) (simp_all add: withDates_id)
  show ?thesis
    unfolding importNotes_def
    by (simp add: saveAll_notes saveAll_categories getAllFromIndexedDB_def os_getAll_def
        asNotes_NoteData asCategories_CategoryData i Let_def del: map_map)
qed

lemma os_put_last:
  "(\<forall>y \<in> set ys. key y < key x) \<Longrightarrow> os_put key x ys = ys @ [x]"
  by (induction ys) auto

lemma put_in_key_order:
  "valid_store key (ys @ xs) \<Longrightarrow> fold (os_put key) xs ys = ys @ xs"
proof (induction xs arbitrary: ys)
  case Nil
  then show ?case by simp
next
  case (Cons x xs)
  have "\<forall>y \<in> set ys. key y < key x"
    using Cons.prems by (simp add: valid_store_def sorted_wrt_append)
  then have "os_put key x ys = ys @ [x]"
    by (rule os_put_last)
  moreover have "valid_store key ((ys @ [x]) @ xs)"
    using Cons.prems by simp
  ultimately show ?case
    using Cons.IH [of "ys @ [x]"] by simp
qed

lemma put_into_empty: "valid_store key xs \<Longrightarrow> fold (os_put key) xs [] = xs"
  using put_in_key_order [of key "[]" xs] by simp

text \<open>
  Claim C4, as amended. Export followed by import is a round trip where every stored date
  is read back from what is written for it, as every valid date is. In a database whose
  stores are in key order, \<open>exportNotes\<close> returns a file that holds every stored note, with
  its dates written out, and every stored category; \<open>importNotes\<close> of that file leaves both
  stores exactly as they were, and run on emptied stores it brings both back to what they
  were. The notes and categories shown after the import are the stored ones.
\<close>

theorem export_import_roundtrip:
  assumes "valid_db (db st)"
    and "\<forall>n \<in> set (notes_store (db st)).
           newDate (toJSON (createdAt n)) = createdAt n \<and>
           newDate (toJSON (updatedAt n)) = updatedAt n"
  shows "\<exists>file st1. exportNotes toJSON st = Inr (file, st1) \<and>
     notes_f file = Some (map (withDates toJSON) (notes_store (db st))) \<and>
     categories_f file = Some (categories_store (db st)) \<and>
     db st1 = db st \<and> notes st1 = notes st \<and> categories st1 = categories st \<and>
     db (importNotes newDate (Parsed file) st1) = db st \<and>
     notes (importNotes newDate (Parsed file) st1) = notes_store (db st) \<and>
     categories (importNotes newDate (Parsed file) st1) = categories_store (db st) \<and>
     db (importNotes newDate (Parsed file)
           (st1\<lparr>db := \<lparr>notes_store = [], categories_store = []\<rparr>\<rparr>)) = db st"
proof -
  let ?file = "\<lparr>notes_f = Some (map (withDates toJSON) (notes_store (db st))),
           categories_f = Some (categories_store (db st))\<rparr>"
  let ?st1 = "st\<lparr>toasts := toasts st @
               [ToastSuccess ''Notes and categories exported successfully!'']\<rparr>"
  have vn: "valid_store id_n (notes_store (db st))"
    and vc: "valid_store name (categories_store (db st))"
    using assms(1) by (simp_all add: valid_db_def)
  have revived: "map (withDates newDate) (map (withDates toJSON) (notes_store (db st)))
      = notes_store (db st)"
  proof -
    have "map (\<lambda>n. withDates newDate (withDates toJSON n)) (notes_store (db st))
        = notes_store (db st)"
      using assms(2) by (intro map_idI) (simp add: withDates_roundtrip)
    then show ?thesis by (simp add: comp_def)
  qed
  have n: "fold (os_put id_n) (notes_store (db st)) (notes_store (db st)) = notes_store (db st)"
    by (rule put_stored_again [OF vn]) simp
  have c: "fold (os_put name) (categories_store (db st)) (categories_store (db st))
      = categories_store (db st)"
    by (rule put_stored_again [OF vc]) simp
  have n0: "fold (os_put id_n) (notes_store (db st)) [] = notes_store (db st)"
    by (rule put_into_empty [OF vn])
  have c0: "fold (os_put name) (categories_store (db st)) [] = categories_store (db st)"
    by (rule put_into_empty [OF vc])
  have imp: "importNotes newDate (Parsed ?file) ?st1 =
      ?st1\<lparr>db := db st, notes := notes_store (db st), categories := categories_store (db st),
            toasts := toasts ?st1 @ [ToastSuccess ''Notes and categories imported successfully!'']\<rparr>"
    unfolding importNotes_done by (simp add: revived n c Let_def del: map_map)
  have imp0: "db (importNotes newDate (Parsed ?file)
        (?st1\<lparr>db := \<lparr>notes_store = [], categories_store = []\<rparr>\<rparr>)) = db st"
    unfolding importNotes_done by (simp add: revived n0 c0 Let_def del: map_map)
  show ?thesis
  proof (intro exI [of _ ?file] exI [of _ ?st1] conjI)
    show "exportNotes toJSON st = Inr (?file, ?st1)"
      by (rule exportNotes_done)
    show "db (importNotes newDate (Parsed ?file)
        (?st1\<lparr>db := \<lparr>notes_store = [], categories_store = []\<rparr>\<rparr>)) = db st"
      by (rule imp0)
  qed (simp_all add: imp)
qed

theorem export_import_roundtrip_witness:
  "valid_db (db datedState) \<and>
   map createdAt (notes_store (db datedState)) = [Some 1000] \<and>
   list_all (\<lambda>n. dateFromJSON msDateParse (dateToJSON msToISOString (createdAt n)) = createdAt n \<and>
                 dateFromJSON msDateParse (dateToJSON msToISOString (updatedAt n)) = updatedAt n)
     (notes_store (db datedState)) \<and>
   (\<exists>file st1. exportNotes (dateToJSON msToISOString) datedState = Inr (file, st1) \<and>
      notes_f file = Some [backupNote (JsonString ''1000'')] \<and>
      db (importNotes (dateFromJSON msDateParse) (Parsed file) st1) = db datedState \<and>
      db (importNotes (dateFromJSON msDateParse) (Parsed file)
            (st1\<lparr>db := \<lparr>notes_store = [], categories_store = []\<rparr>\<rparr>)) = db datedState)"
proof -
  have v: "valid_db (db datedState)"
    by code_simp
  have c: "map createdAt (notes_store (db datedState)) = [Some 1000]"
    by code_simp
  have l: "list_all (\<lambda>n. dateFromJSON msDateParse (dateToJSON msToISOString (createdAt n)) = createdAt n \<and>
                 dateFromJSON msDateParse (dateToJSON msToISOString (updatedAt n)) = updatedAt n)
     (notes_store (db datedState))"
    by code_simp
  have f: "map (withDates (dateToJSON msToISOString)) (notes_store (db datedState))
      = [backupNote (JsonString ''1000'')]"
    by code_simp
  have d: "\<forall>n \<in> set (notes_store (db datedState)).
      dateFromJSON msDateParse (dateToJSON msToISOString (createdAt n)) = createdAt n \<and>
      dateFromJSON msDateParse (dateToJSON msToISOString (updatedAt n)) = updatedAt n"
    using l by (simp only: list_all_iff)
  from export_import_roundtrip
    [of datedState "dateFromJSON msDateParse" "dateToJSON msToISOString", OF v d]
  have "\<exists>file st1. exportNotes (dateToJSON msToISOString) datedState = Inr (file, st1) \<and>
      notes_f file = Some [backupNote (JsonString ''1000'')] \<and>
      db (importNotes (dateFromJSON msDateParse) (Parsed file) st1) = db datedState \<and>
      db (importNotes (dateFromJSON msDateParse) (Parsed file)
            (st1\<lparr>db := \<lparr>notes_store = [], categories_store = []\<rparr>\<rparr>)) = db datedState"
    unfolding f by blast
  then show ?thesis using v c l by blast
qed

text \<open>
  The claim as stated, for every store state, fails for a store that holds an Invalid
  Date, as the import of a file with a string that is no date leaves one: the export writes
  \<open>null\<close> for it, and the import reads \<open>null\<close> as the time value 0.
\<close>

theorem export_import_invalid_date_counterexample:
  "map createdAt (notes_store (db undatedState)) = [None] \<and>
   \<not> isl (exportNotes (dateToJSON msToISOString) undatedState) \<and>
   map createdAt
     (notes_store (db (importNotes (dateFromJSON msDateParse)
        (Parsed (fst (projr (exportNotes (dateToJSON msToISOString) undatedState))))
        (snd (projr (exportNotes (dateToJSON msToISOString) undatedState))))))
     = [Some 0]"
  by code_simp

lemma valid_date_read_back:
  "parse (toISOString t) = Some t \<Longrightarrow>
   dateFromJSON parse (dateToJSON toISOString (Some t)) = Some t"
  by (simp add: dateFromJSON_def dateToJSON_def)


section \<open>The first start, and ids that stay different\<close>

lemma initializeData_first_start:
  "initializeData now initialState = Inr (firstStart now)"
  by (simp add: initializeData_def initialState_def firstStart_def getAllFromIndexedDB_def
      os_getAll_def Let_def saveAll_notes [where f = "\<lambda>n. n", simplified] saveAll_categories
      welcomeNotes_def initialCategories_def welcomeNote1_def welcomeNote2_def welcomeNote3_def
      save_note save_category)

text \<open>
  Pairwise different ids are kept: the operations that change a listed note, or remove
  notes, leave no two notes with one id, and an import shows the notes of the store, which
  holds one note per id.
\<close>

lemma replaceNote_ids: "id_n u = k \<Longrightarrow> map id_n (replaceNote k u ns) = map id_n ns"
  unfolding replaceNote_def by (induction ns) auto

lemma distinct_ids_kept:
  assumes "distinct (map id_n (notes st))"
  shows "(\<exists>st'. togglePinNote k st = Inr st' \<and> distinct (map id_n (notes st'))) \<and>
    (\<exists>st'. toggleArchiveNote k st = Inr st' \<and> distinct (map id_n (notes st'))) \<and>
    (\<exists>st'. handleTagChange tgs noteId st = Inr st' \<and> distinct (map id_n (notes st'))) \<and>
    (\<exists>st'. updateNote now st = Inr st' \<and> distinct (map id_n (notes st'))) \<and>
    (\<exists>st'. deleteNote k st = Inr st' \<and> distinct (map id_n (notes st'))) \<and>
    (\<exists>st'. deleteCategory c st = Inr st' \<and> distinct (map id_n (notes st')))"
proof (intro conjI)
  have same: "distinct (map id_n ns')" if "map id_n ns' = map id_n (notes st)" for ns' :: "Note list"
    using assms that by simp
  from togglePinNote_frame [OF assms, of k] obtain st' where
    r: "togglePinNote k st = Inr st'"
    and n: "notes st' =
        (if (\<exists>m \<in> set (notes st). id_n m = k \<and> \<not> isPinned m) \<and> 3 \<le> pinnedCount (notes st)
         then notes st
         else map (\<lambda>n. if id_n n = k then n\<lparr>isPinned := \<not> isPinned n\<rparr> else n) (notes st))"
    by blast
  have "map id_n (notes st') = map id_n (notes st)"
    unfolding n by (simp add: comp_def if_distrib [of id_n] cong: if_cong)
  then show "\<exists>st'. togglePinNote k st = Inr st' \<and> distinct (map id_n (notes st'))"
    using r same by blast
next
  have same: "distinct (map id_n ns')" if "map id_n ns' = map id_n (notes st)" for ns' :: "Note list"
    using assms that by simp
  from toggleArchiveNote_frame [OF assms, of k] obtain st' where
    r: "toggleArchiveNote k st = Inr st'"
    and n: "notes st' = map (\<lambda>n. if id_n n = k then n\<lparr>isArchived := \<not> isArchived n\<rparr> else n) (notes st)"
    by blast
  have "map id_n (notes st') = map id_n (notes st)"
    unfolding n by (simp add: comp_def if_distrib [of id_n] cong: if_cong)
  then show "\<exists>st'. toggleArchiveNote k st = Inr st' \<and> distinct (map id_n (notes st'))"
    using r same by blast
next
  have same: "distinct (map id_n ns')" if "map id_n ns' = map id_n (notes st)" for ns' :: "Note list"
    using assms that by simp
  from handleTagChange_frame [OF assms, of tgs noteId] obtain st' where
    r: "handleTagChange tgs noteId st = Inr st'"
    and n: "notes st' = map (\<lambda>n. if Some (id_n n) = noteId \<and> noteId \<noteq> Some []
                            then n\<lparr>tags := normalizeTags tgs\<rparr> else n) (notes st)"
    by blast
  have "map id_n (notes st') = map id_n (notes st)"
    unfolding n by (simp add: comp_def if_distrib [of id_n] cong: if_cong)
  then show "\<exists>st'. handleTagChange tgs noteId st = Inr st' \<and> distinct (map id_n (notes st'))"
    using r same by blast
next
  show "\<exists>st'. updateNote now st = Inr st' \<and> distinct (map id_n (notes st'))"
  proof (cases "editingNote st")
    case None
    then show ?thesis using assms by (simp add: updateNote_idle)
  next
    case (Some e)
    have "map id_n (replaceNote (id_n e) (e\<lparr>updatedAt := now\<rparr>) (notes st)) = map id_n (notes st)"
      by (rule replaceNote_ids) simp
    then show ?thesis using assms by (simp add: updateNote_done [OF Some])
  qed
next
  show "\<exists>st'. deleteNote k st = Inr st' \<and> distinct (map id_n (notes st'))"
    using assms by (simp add: deleteNote_done distinct_map_filter)
next
  have "map id_n (map (\<lambda>note. if category note = c
                                    then note\<lparr>category := ''Uncategorized''\<rparr> else note)
                        (notes st)) = map id_n (notes st)"
    by (simp add: comp_def if_distrib [of id_n] cong: if_cong)
  then show "\<exists>st'. deleteCategory c st = Inr st' \<and> distinct (map id_n (notes st'))"
    using assms by (simp add: deleteCategory_done del: map_map)
qed

lemma importNotes_ids_distinct:
  assumes "valid_db (db st)"
  shows "distinct (map id_n (notes (importNotes newDate (Parsed \<lparr>notes_f = Some fs, categories_f = Some cs\<rparr>) st)))"
proof -
  have v: "valid_store id_n (notes_store (db st))"
    using assms by (simp add: valid_db_def)
  have "valid_store id_n (fold (os_put id_n) rs xs)" if "valid_store id_n xs"
    for rs xs :: "'a Note_of list"
    using that by (induction rs arbitrary: xs) (simp_all add: os_put_valid)
  from this [OF v] show ?thesis
    unfolding importNotes_done by (simp add: Let_def valid_store_distinct)
qed

end
